theory Spec2Isabelle
  imports Complex_Main
begin

section \<open>JavaScript values\<close>

text \<open>
  The session backend (\<^verbatim>\<open>src/session-backend/index.ts\<close>) handles values that arrive as
  JSON: tool arguments are \<^verbatim>\<open>JSON.parse(call.function.arguments)\<close>, event payloads are
  whatever a client sent. They are typed \<^verbatim>\<open>any\<close>, so the model keeps the whole value space.
  A number is a double; its finite values are kept as rationals (the program only copies and
  compares the numbers it receives; the one product it computes is rounded to a double, see
  below), the three non-finite ones are constructors of their own.
\<close>

datatype jsnum = Finite rat | PosInfinity | NegInfinity | NaN

datatype jsval =
    Undefined
  | Null
  | Bool bool
  | Num jsnum
  | Str string
  | Arr "jsval list"
  | Obj "(string \<times> jsval) list"

text \<open>\<^verbatim>\<open>Number.isFinite(v)\<close>: true only for a value of type number that is finite.\<close>

definition Number_isFinite :: "jsval \<Rightarrow> bool" where
  "Number_isFinite v = (case v of Num (Finite q) \<Rightarrow> True | _ \<Rightarrow> False)"

text \<open>
  Reading a property of a value that is neither \<^verbatim>\<open>null\<close> nor \<^verbatim>\<open>undefined\<close>. An object
  is the finite map its association list denotes. The program reads the keys
  \<^verbatim>\<open>x\<close>, \<^verbatim>\<open>y\<close>, \<^verbatim>\<open>w\<close>, \<^verbatim>\<open>h\<close>, \<^verbatim>\<open>color\<close> and \<^verbatim>\<open>id\<close> only, none of which is
  a property of a built-in prototype, so a missing key reads as \<^verbatim>\<open>undefined\<close>, as does
  any key of a primitive or of an array.
\<close>

fun own_property :: "jsval \<Rightarrow> string \<Rightarrow> jsval" where
  "own_property (Obj kvs) k = (case map_of kvs k of Some v \<Rightarrow> v | None \<Rightarrow> Undefined)"
| "own_property v k = Undefined"

definition nullish :: "jsval \<Rightarrow> bool" where
  "nullish v = (v = Undefined \<or> v = Null)"

text \<open>\<^verbatim>\<open>v?.k\<close>: \<^verbatim>\<open>undefined\<close> when \<^verbatim>\<open>v\<close> is nullish, the property otherwise.\<close>

definition optional_get :: "jsval \<Rightarrow> string \<Rightarrow> jsval" where
  "optional_get v k = (if nullish v then Undefined else own_property v k)"

text \<open>\<^verbatim>\<open>a ?? b\<close>\<close>

definition nullish_coalesce :: "jsval \<Rightarrow> jsval \<Rightarrow> jsval" where
  "nullish_coalesce a b = (if nullish a then b else a)"

text \<open>
  \<^verbatim>\<open>a === b\<close>. \<^verbatim>\<open>NaN\<close> equals nothing. Arrays and objects are compared by reference;
  the two sides the program compares are a shape's \<^verbatim>\<open>id\<close> and the \<^verbatim>\<open>id\<close> of a freshly
  received payload, which never share an object.
\<close>

fun strict_eq :: "jsval \<Rightarrow> jsval \<Rightarrow> bool" where
  "strict_eq Undefined Undefined = True"
| "strict_eq Null Null = True"
| "strict_eq (Bool a) (Bool b) = (a = b)"
| "strict_eq (Num a) (Num b) = (if a = NaN then False else a = b)"
| "strict_eq (Str a) (Str b) = (a = b)"
| "strict_eq a b = False"

section \<open>Double arithmetic\<close>

text \<open>
  \<^verbatim>\<open>Math.random() * 100000\<close> is a multiplication of doubles: its result is the double
  nearest to the exact product, ties going to the even significand. \<open>round_half_even\<close> rounds
  a rational to the nearest integer in that way.
\<close>

definition round_half_even :: "rat \<Rightarrow> int" where
  "round_half_even y =
     (let n = \<lfloor>y\<rfloor>; d = y - of_int n
      in if d < 1 / 2 then n else if 1 / 2 < d then n + 1 else if even n then n else n + 1)"

text \<open>
  The spacing of the doubles around a non-negative \<open>a\<close>: \<open>2\<close> to the power \<open>f - 52\<close> when
  \<open>a\<close> lies in the binade \<open>[2^f, 2^(f+1))\<close> of a normal exponent \<open>f\<close>, and \<open>2^-1074\<close> below
  the smallest normal binade. The search for the binade goes down from exponent \<open>e\<close>.
\<close>

function ulp_from :: "int \<Rightarrow> rat \<Rightarrow> rat" where
  "ulp_from e a =
     (if e \<le> - 1022 then 2 powi (- 1074)
      else if 2 powi e \<le> a then 2 powi (e - 52)
      else ulp_from (e - 1) a)"
  by pat_completeness auto
termination
  by (relation "measure (\<lambda>(e, a). nat (e + 1022))") auto

declare ulp_from.simps [simp del]

text \<open>
  The double nearest to a rational \<open>x\<close> (binary64, round to nearest, ties to even): the
  magnitude is rounded to a multiple of the spacing at its binade; a result of \<open>2^1024\<close> or
  more is an infinity. The sign of a zero is not kept. A rational is a double when rounding
  leaves it as it is.
\<close>

definition to_double :: "rat \<Rightarrow> jsnum" where
  "to_double x =
     (let a = \<bar>x\<bar>; q = ulp_from 1023 a; m = of_int (round_half_even (a / q)) * q
      in if 2 powi 1024 \<le> m then (if x < 0 then NegInfinity else PosInfinity)
         else Finite (if x < 0 then - m else m))"

definition is_double :: "rat \<Rightarrow> bool" where
  "is_double x = (to_double x = Finite x)"

text \<open>\<^verbatim>\<open>Math.floor\<close>; the floor of a double is a double.\<close>

definition Math_floor :: "jsnum \<Rightarrow> jsnum" where
  "Math_floor v = (case v of Finite q \<Rightarrow> Finite (of_int \<lfloor>q\<rfloor>) | _ \<Rightarrow> v)"

section \<open>Errors\<close>

text \<open>
  What a tool handler, or whatever \<^verbatim>\<open>functions[name]\<close> yields, can throw when called; the
  inner \<^verbatim>\<open>catch\<close> of the dispatch receives it. \<^verbatim>\<open>Error m\<close> is \<^verbatim>\<open>new Error(m)\<close>. A
  \<^verbatim>\<open>TypeError\<close> is raised by the engine, and the model records where: reading the property
  \<open>k\<close> of a nullish value \<open>v\<close> (\<open>Property_of_nullish v k\<close>), or calling the member \<open>name\<close>
  that \<^verbatim>\<open>functions\<close> inherits from \<^verbatim>\<open>Object.prototype\<close> on the argument \<open>a\<close>
  (\<open>Inherited_call name a\<close>).
\<close>

datatype type_error =
    Property_of_nullish jsval string
  | Inherited_call string jsval

datatype js_error =
    Error string
  | TypeError type_error

text \<open>
  What reaches the outer \<^verbatim>\<open>catch\<close> of the driver: \<^verbatim>\<open>JSON.parse\<close> on a text that is not
  JSON, or a failed request to the external service.
\<close>

datatype driver_error = SyntaxError | ExternalServiceError

section \<open>Data model\<close>

text \<open>
  \<^verbatim>\<open>Shape\<close> (declared in \<^verbatim>\<open>../types\<close>): the six fields the program reads and writes.
  A field holds whatever was assigned to it. Every element of the \<^verbatim>\<open>shapes\<close> array is taken
  to be such an object, as the array's declared type \<^verbatim>\<open>Shape[]\<close> says.
\<close>

record shape =
  shape_x :: jsval
  shape_y :: jsval
  shape_w :: jsval
  shape_h :: jsval
  shape_color :: jsval
  shape_id :: jsval

text \<open>
  The parts of the engine the program calls and the model does not compute: the two forms of
  \<^verbatim>\<open>JSON.stringify\<close> on the shapes array (plain, and indented by two spaces), and the
  message text of an engine-raised \<^verbatim>\<open>TypeError\<close>.
\<close>

record engine =
  JSON_stringify :: "shape list \<Rightarrow> string"
  JSON_stringify_indent :: "shape list \<Rightarrow> string"
  type_error_message :: "type_error \<Rightarrow> string"

text \<open>\<^verbatim>\<open>err.toString()\<close> of an \<^verbatim>\<open>Error\<close> instance: its name, a colon, its message.\<close>

fun err_toString :: "engine \<Rightarrow> js_error \<Rightarrow> string" where
  "err_toString E (Error m) = ''Error: '' @ m"
| "err_toString E (TypeError t) = ''TypeError: '' @ type_error_message E t"

text \<open>
  A tool call of a required-action batch. \<^verbatim>\<open>arguments\<close> is the text
  \<^verbatim>\<open>call.function.arguments\<close>, held as what \<^verbatim>\<open>JSON.parse\<close> makes of it: \<open>None\<close> when the
  text is not JSON (\<^verbatim>\<open>JSON.parse\<close> throws), the parsed value otherwise.
\<close>

record tool_call =
  call_id :: "string option"
  fn_name :: string
  arguments :: "jsval option"

record tool_output =
  tool_call_id :: string
  output_text :: string

text \<open>
  A \<^verbatim>\<open>Run\<close> object of the external service: its identifier, its status, and the tool calls of
  \<^verbatim>\<open>required_action.submit_tool_outputs.tool_calls\<close> when \<^verbatim>\<open>required_action\<close> is set.
\<close>

record run =
  run_id :: string
  status :: string
  required_action :: "tool_call list option"

text \<open>
  What the program does to the outside, in the order it does it: \<^verbatim>\<open>socket.emit\<close>,
  \<^verbatim>\<open>socket.broadcast.emit\<close>, \<^verbatim>\<open>console.error\<close>, \<^verbatim>\<open>sleep\<close> and the four requests to
  the external service.
\<close>

datatype payload = Text string | Snapshot "shape list" | OneShape shape

datatype effect =
    Emit string payload
  | BroadcastEmit string payload
  | ConsoleError string "driver_error option"
  | Sleep nat
  | MessagesCreate string
  | RunsCreate
  | RunsRetrieve string
  | SubmitToolOutputs string "tool_output list"

text \<open>
  The module's mutable state: \<^verbatim>\<open>shapes\<close>, \<^verbatim>\<open>activeRun\<close>, the future results of
  \<^verbatim>\<open>Math.random()\<close> (each a double in \<open>[0, 1)\<close>, which the theorems that need it
  assume), and the effects so far.
\<close>

record state =
  shapes :: "shape list"
  activeRun :: "run option"
  math_random :: "nat \<Rightarrow> rat"
  effects :: "effect list"

definition perform :: "effect \<Rightarrow> state \<Rightarrow> state" where
  "perform e s = s\<lparr>effects := effects s @ [e]\<rparr>"

section \<open>Tool handlers\<close>

text \<open>
  \<^verbatim>\<open>functions.createShape\<close>. Past the check \<^verbatim>\<open>toolOutput\<close> is not nullish, so the reads
  \<^verbatim>\<open>toolOutput.x\<close> cannot throw. The \<^verbatim>\<open>id\<close> is
  \<^verbatim>\<open>Math.floor(Math.random() * 100000)\<close>: the floor of the rounded product.
\<close>

definition createShape :: "jsval \<Rightarrow> state \<Rightarrow> js_error + state" where
  "createShape toolOutput s =
     (if \<not> Number_isFinite (optional_get toolOutput ''x'') \<or>
         \<not> Number_isFinite (optional_get toolOutput ''y'') \<or>
         \<not> Number_isFinite (optional_get toolOutput ''w'') \<or>
         \<not> Number_isFinite (optional_get toolOutput ''h'')
      then Inl (Error ''required params were not given'')
      else
        let generatedShape =
          \<lparr> shape_x = own_property toolOutput ''x'',
            shape_y = own_property toolOutput ''y'',
            shape_w = own_property toolOutput ''w'',
            shape_h = own_property toolOutput ''h'',
            shape_color = nullish_coalesce (optional_get toolOutput ''color'') (Str ''hsl(0, 0%, 0%)''),
            shape_id = Num (Math_floor (to_double (math_random s 0 * 100000))) \<rparr>
        in Inr (s\<lparr>shapes := shapes s @ [generatedShape],
                  math_random := (\<lambda>n. math_random s (Suc n))\<rparr>))"

text \<open>
  \<^verbatim>\<open>Array.prototype.find\<close>, as the position of the first element the predicate accepts.
\<close>

primrec find_index :: "('a \<Rightarrow> bool) \<Rightarrow> 'a list \<Rightarrow> nat option" where
  "find_index P [] = None"
| "find_index P (a # as) = (if P a then Some 0 else map_option Suc (find_index P as))"

text \<open>
  \<^verbatim>\<open>shapes.find((shape) => shape.id === payload.id)\<close>. The callback reads \<^verbatim>\<open>payload.id\<close>
  without \<^verbatim>\<open>?.\<close>, so it throws on a nullish payload; it runs only when there is a shape.
\<close>

definition find_shape_by_id :: "shape list \<Rightarrow> jsval \<Rightarrow> js_error + nat option" where
  "find_shape_by_id ss p =
     (if ss = [] then Inr None
      else if nullish p then Inl (TypeError (Property_of_nullish p ''id''))
      else Inr (find_index (\<lambda>shape. strict_eq (shape_id shape) (own_property p ''id'')) ss))"

text \<open>\<^verbatim>\<open>functions.editExistingShape\<close>\<close>

definition editExistingShape :: "jsval \<Rightarrow> state \<Rightarrow> js_error + state" where
  "editExistingShape toolOutput s =
     (case find_shape_by_id (shapes s) toolOutput of
        Inl e \<Rightarrow> Inl e
      | Inr None \<Rightarrow> Inl (Error ''could not find shape'')
      | Inr (Some i) \<Rightarrow>
          let editShape = shapes s ! i in
          Inr (s\<lparr>shapes := (shapes s)[i := editShape
                 \<lparr> shape_x := nullish_coalesce (optional_get toolOutput ''x'') (shape_x editShape),
                   shape_y := nullish_coalesce (optional_get toolOutput ''y'') (shape_y editShape),
                   shape_w := nullish_coalesce (optional_get toolOutput ''w'') (shape_w editShape),
                   shape_h := nullish_coalesce (optional_get toolOutput ''h'') (shape_h editShape),
                   shape_color :=
                     nullish_coalesce (optional_get toolOutput ''color'') (shape_color editShape) \<rparr>]\<rparr>))"

section \<open>The registry and the dispatch of one tool call\<close>

text \<open>
  \<^verbatim>\<open>functions[name]\<close> (\<open>functions\<close> is a keyword of Isabelle, hence \<open>functions_get\<close>).
  \<^verbatim>\<open>functions\<close> is an object literal with the two handlers as its own
  properties; a property read also finds what the object inherits from
  \<^verbatim>\<open>Object.prototype\<close>, whose twelve property names are listed here.
\<close>

datatype fn_value = CreateShape | EditExistingShape | Inherited string

definition Object_prototype_names :: "string list" where
  "Object_prototype_names =
     [''constructor'', ''toString'', ''toLocaleString'', ''valueOf'', ''hasOwnProperty'',
      ''isPrototypeOf'', ''propertyIsEnumerable'', ''__defineGetter__'', ''__defineSetter__'',
      ''__lookupGetter__'', ''__lookupSetter__'', ''__proto__'']"

definition functions_get :: "string \<Rightarrow> fn_value option" where
  "functions_get name =
     (if name = ''createShape'' then Some CreateShape
      else if name = ''editExistingShape'' then Some EditExistingShape
      else if name \<in> set Object_prototype_names then Some (Inherited name)
      else None)"

text \<open>
  \<^verbatim>\<open>fn(functionArgs)\<close> for an inherited member: a plain call in module (strict) code, so the
  receiver is \<^verbatim>\<open>undefined\<close>. \<^verbatim>\<open>Object\<close> (\<^verbatim>\<open>constructor\<close>) and
  \<^verbatim>\<open>Object.prototype.toString\<close> return; \<^verbatim>\<open>isPrototypeOf\<close> returns \<^verbatim>\<open>false\<close> for an
  argument that is not an object and needs its receiver otherwise; \<^verbatim>\<open>__proto__\<close> reads as
  \<^verbatim>\<open>Object.prototype\<close> itself, which is truthy and not callable; every other member converts
  its missing receiver to an object. The last three raise a \<^verbatim>\<open>TypeError\<close>.
  \<open>None\<close> is a normal return.
\<close>

definition is_object :: "jsval \<Rightarrow> bool" where
  "is_object v = (case v of Arr xs \<Rightarrow> True | Obj kvs \<Rightarrow> True | _ \<Rightarrow> False)"

definition call_inherited :: "string \<Rightarrow> jsval \<Rightarrow> js_error option" where
  "call_inherited name a =
     (if name = ''constructor'' \<or> name = ''toString'' then None
      else if name = ''isPrototypeOf'' \<and> \<not> is_object a then None
      else Some (TypeError (Inherited_call name a)))"

definition call_fn :: "fn_value \<Rightarrow> jsval \<Rightarrow> state \<Rightarrow> js_error + state" where
  "call_fn fn a s =
     (case fn of
        CreateShape \<Rightarrow> createShape a s
      | EditExistingShape \<Rightarrow> editExistingShape a s
      | Inherited name \<Rightarrow> (case call_inherited name a of None \<Rightarrow> Inr s | Some e \<Rightarrow> Inl e))"

text \<open>\<^verbatim>\<open>call.id ?? ''\<close>\<close>

definition id_or_empty :: "tool_call \<Rightarrow> string" where
  "id_or_empty call = (case call_id call of None \<Rightarrow> [] | Some i \<Rightarrow> i)"

text \<open>
  The callback of \<^verbatim>\<open>toolCalls.map\<close> (lines 65 to 95), for one call. \<^verbatim>\<open>JSON.parse\<close> comes
  first and stands outside the inner \<^verbatim>\<open>try\<close>: its \<^verbatim>\<open>SyntaxError\<close> leaves the callback.
  Everything a handler throws is an \<^verbatim>\<open>Error\<close> instance, so the inner \<^verbatim>\<open>catch\<close> always takes
  \<^verbatim>\<open>err.toString()\<close>.
\<close>

definition dispatch ::
  "engine \<Rightarrow> tool_call \<Rightarrow> state \<Rightarrow> (driver_error + tool_output) \<times> state"
where
  "dispatch E call s =
     (case arguments call of
        None \<Rightarrow> (Inl SyntaxError, s)
      | Some functionArgs \<Rightarrow>
          (case functions_get (fn_name call) of
             None \<Rightarrow>
               (Inr \<lparr>tool_call_id = id_or_empty call, output_text = ''error: couldnt find function''\<rparr>,
                perform (ConsoleError ''function name did not match accepted function arguments'' None)
                  (perform (Emit ''updates'' (Text ''Process encountered errors, restarting...'')) s))
           | Some fn \<Rightarrow>
               (case call_fn fn functionArgs s of
                  Inr s' \<Rightarrow>
                    (Inr \<lparr>tool_call_id = id_or_empty call,
                          output_text = ''Success. New shapes array: '' @ JSON_stringify E (shapes s')\<rparr>,
                     s')
                | Inl err \<Rightarrow>
                    (Inr \<lparr>tool_call_id = id_or_empty call, output_text = err_toString E err\<rparr>,
                     perform (Emit ''updates'' (Text ''Process encountered errors, restarting...'')) s))))"

text \<open>
  \<^verbatim>\<open>toolCalls.map(...)\<close>: the calls in their order, each on the state the one before left;
  an exception ends the map, and what earlier calls did to the shapes stays done.
\<close>

fun dispatch_all ::
  "engine \<Rightarrow> tool_call list \<Rightarrow> state \<Rightarrow> (driver_error + tool_output list) \<times> state"
where
  "dispatch_all E [] s = (Inr [], s)"
| "dispatch_all E (call # calls) s =
     (case dispatch E call s of
        (Inl err, s1) \<Rightarrow> (Inl err, s1)
      | (Inr out, s1) \<Rightarrow>
          (case dispatch_all E calls s1 of
             (Inl err, s2) \<Rightarrow> (Inl err, s2)
           | (Inr outs, s2) \<Rightarrow> (Inr (out # outs), s2)))"

section \<open>The run driver\<close>

text \<open>
  The external service, as what it answers: to \<^verbatim>\<open>messages.create\<close>, to \<^verbatim>\<open>runs.create\<close>,
  and to the successive \<^verbatim>\<open>runs.retrieve\<close> and \<^verbatim>\<open>runs.submitToolOutputs\<close> requests (both
  answer with a \<^verbatim>\<open>Run\<close>). A request past the end of the list is never answered.
\<close>

datatype 'a reply = Throws | Returns 'a

record service =
  messages_create :: "unit reply"
  runs_create :: "run reply"
  run_replies :: "run reply list"

text \<open>
  The promise \<^verbatim>\<open>handleUserPrompt\<close> returns: \<open>None\<close> while pending, settled once by the first
  \<^verbatim>\<open>resolve\<close> or \<^verbatim>\<open>reject\<close>; later calls change nothing. \<^verbatim>\<open>reject\<close> carries the message of
  its \<^verbatim>\<open>Error\<close>, or nothing.
\<close>

datatype settlement = Fulfilled | Rejected "string option"

definition settle :: "settlement \<Rightarrow> settlement option \<Rightarrow> settlement option" where
  "settle x p = (case p of None \<Rightarrow> Some x | Some y \<Rightarrow> Some y)"

definition newline :: string where
  "newline = [CHR 0x0A]"

definition addMessageContext :: "engine \<Rightarrow> shape list \<Rightarrow> string \<Rightarrow> string" where
  "addMessageContext E ss message =
     ''  This is the user's request:'' @ newline @ newline @
     ''  '' @ message @ ''.'' @ newline @ newline @
     ''  These are the current shapes on the canvas:'' @ newline @ newline @
     ''  '' @ JSON_stringify_indent E ss @ newline @ newline @
     ''  Remember, the y axis goes from negative (top) to positive (bottom). The x axis goes from negative (left) to positive (right). [0, 0] is in the middle of the screen.'' @
     newline @ ''  ''"

definition failedStatus :: "string list" where
  "failedStatus = [''cancelled'', ''failed'', ''expired'']"

definition pendingStatus :: "string list" where
  "pendingStatus = [''in_progress'', ''queued'', ''requires_action'']"

text \<open>
  \<^verbatim>\<open>runResult?.required_action?.submit_tool_outputs.tool_calls ?? []\<close>
\<close>

definition toolCalls_of :: "run \<Rightarrow> tool_call list" where
  "toolCalls_of runResult = (case required_action runResult of None \<Rightarrow> [] | Some calls \<Rightarrow> calls)"

text \<open>The \<^verbatim>\<open>catch\<close> block of lines 107 to 110: log, \<^verbatim>\<open>reject()\<close>. It assigns nothing.\<close>

definition catch_block ::
  "driver_error \<Rightarrow> settlement option \<Rightarrow> state \<Rightarrow> settlement option \<times> state"
where
  "catch_block err p s =
     (settle (Rejected None) p, perform (ConsoleError ''Error retrieving the run:'' (Some err)) s)"

text \<open>
  The \<^verbatim>\<open>while\<close> loop of lines 53 to 103 and the three statements after it, from the top of
  the loop, with the current \<^verbatim>\<open>runResult\<close> and the answers still to come. Each turn of the
  loop that goes on consumes one answer. Where \<^verbatim>\<open>activeRun\<close> is null inside the loop the
  program makes no request and tests the same \<^verbatim>\<open>runResult\<close> again, for ever: the promise stays
  as it is.
\<close>

fun poll ::
  "engine \<Rightarrow> run reply list \<Rightarrow> settlement option \<Rightarrow> run \<Rightarrow> state \<Rightarrow> settlement option \<times> state"
where
  "poll E rs p runResult s =
     (if status runResult \<in> set pendingStatus then
        (if status runResult = ''in_progress'' \<or> status runResult = ''queued'' then
           (let s1 = perform (Sleep 1000)
                       (perform (Emit ''updates'' (Text ''Processing your request...'')) s)
            in case activeRun s1 of
                 None \<Rightarrow> (p, s1)
               | Some a \<Rightarrow>
                   (case rs of
                      [] \<Rightarrow> (p, perform (RunsRetrieve (run_id a)) s1)
                    | Throws # rs' \<Rightarrow>
                        catch_block ExternalServiceError p (perform (RunsRetrieve (run_id a)) s1)
                    | Returns r' # rs' \<Rightarrow> poll E rs' p r' (perform (RunsRetrieve (run_id a)) s1)))
         else
           (case dispatch_all E (toolCalls_of runResult) s of
              (Inl err, s1) \<Rightarrow> catch_block err p s1
            | (Inr toolOutputs, s1) \<Rightarrow>
                (case activeRun s1 of
                   None \<Rightarrow> (p, s1)
                 | Some a \<Rightarrow>
                     (case rs of
                        [] \<Rightarrow> (p, perform (SubmitToolOutputs (run_id a) toolOutputs) s1)
                      | Throws # rs' \<Rightarrow>
                          catch_block ExternalServiceError p
                            (perform (SubmitToolOutputs (run_id a) toolOutputs) s1)
                      | Returns r' # rs' \<Rightarrow>
                          poll E rs' p r' (perform (SubmitToolOutputs (run_id a) toolOutputs) s1)))))
      else (settle Fulfilled p, perform (Emit ''updates'' (Text [])) (s\<lparr>activeRun := None\<rparr>)))"

text \<open>
  The equation of \<open>poll\<close> unfolds for ever under the simplifier; it is used where it is
  named.
\<close>

declare poll.simps [simp del]

text \<open>
  \<^verbatim>\<open>handleUserPrompt\<close>. The two requests before the \<^verbatim>\<open>try\<close> are awaited inside the promise's
  \<^verbatim>\<open>async\<close> executor: when one of them fails, nothing settles the promise. After the failed
  status of the first fetch there is no \<^verbatim>\<open>return\<close>: the program goes on to the loop.
\<close>

definition handleUserPrompt ::
  "engine \<Rightarrow> service \<Rightarrow> string \<Rightarrow> state \<Rightarrow> settlement option \<times> state"
where
  "handleUserPrompt E svc message s =
     (let messageWithContext = addMessageContext E (shapes s) message;
          s1 = perform (MessagesCreate messageWithContext) s
      in case messages_create svc of
           Throws \<Rightarrow> (None, s1)
         | Returns u \<Rightarrow>
             (let s2 = perform RunsCreate s1
              in case runs_create svc of
                   Throws \<Rightarrow> (None, s2)
                 | Returns created \<Rightarrow>
                     (let s3 = perform (RunsRetrieve (run_id created)) (s2\<lparr>activeRun := Some created\<rparr>)
                      in case run_replies svc of
                           [] \<Rightarrow> (None, s3)
                         | Throws # rs \<Rightarrow> catch_block ExternalServiceError None s3
                         | Returns runResult # rs \<Rightarrow>
                             (if status runResult \<in> set failedStatus then
                                poll E rs
                                  (settle (Rejected (Some (''run result failed with status: '' @ status runResult))) None)
                                  runResult
                                  (perform (Emit ''updates'' (Text (''Process failed with status: '' @ status runResult)))
                                     (s3\<lparr>activeRun := None\<rparr>))
                              else poll E rs None runResult s3))))"

section \<open>The session gateway\<close>

text \<open>
  How a listener ends: it returned, it threw (for an \<^verbatim>\<open>async\<close> listener: its promise was
  rejected), or it is still waiting on a promise nothing settles.
\<close>

datatype listener_end = Returned | Threw | Waiting

text \<open>
  The listener of \<^verbatim>\<open>handle-user-prompt\<close> (lines 141 to 148), run from the event to its end
  with no other listener in between. \<^verbatim>\<open>await\<close> on a rejected promise throws, and the
  statement after the \<^verbatim>\<open>if\<close> is not reached.
\<close>

definition on_handle_user_prompt ::
  "engine \<Rightarrow> service \<Rightarrow> string \<Rightarrow> state \<Rightarrow> listener_end \<times> state"
where
  "on_handle_user_prompt E svc message s =
     (if activeRun s = None then
        (case handleUserPrompt E svc message s of
           (None, s') \<Rightarrow> (Waiting, s')
         | (Some (Rejected reason), s') \<Rightarrow> (Threw, s')
         | (Some Fulfilled, s') \<Rightarrow> (Returned, perform (Emit ''snapshot'' (Snapshot (shapes s'))) s'))
      else (Returned, perform (Emit ''snapshot'' (Snapshot (shapes s))) s))"

text \<open>
  The listener of \<^verbatim>\<open>update-shape\<close> (lines 155 to 163). A shape found is an object, so
  \<^verbatim>\<open>!shape\<close> holds only when none was found.
\<close>

definition on_update_shape :: "jsval \<Rightarrow> state \<Rightarrow> js_error + state" where
  "on_update_shape updatedShape s =
     (case find_shape_by_id (shapes s) updatedShape of
        Inl e \<Rightarrow> Inl e
      | Inr None \<Rightarrow> Inr s
      | Inr (Some i) \<Rightarrow>
          (let shape = (shapes s ! i)
                 \<lparr> shape_x := own_property updatedShape ''x'',
                   shape_y := own_property updatedShape ''y'',
                   shape_w := own_property updatedShape ''w'',
                   shape_h := own_property updatedShape ''h'' \<rparr>
           in Inr (perform (BroadcastEmit ''update-shape'' (OneShape shape))
                     (s\<lparr>shapes := (shapes s)[i := shape]\<rparr>))))"

section \<open>The listeners, one await at a time\<close>

text \<open>
  The listener of \<^verbatim>\<open>handle-user-prompt\<close> is \<^verbatim>\<open>async\<close>: it gives the control back at every
  \<^verbatim>\<open>await\<close>, and other events are handled before it goes on. The places where it waits:
  \<^verbatim>\<open>messages.create\<close> (line 29), \<^verbatim>\<open>runs.create\<close> (line 34), the first \<^verbatim>\<open>runs.retrieve\<close>
  (line 42), \<^verbatim>\<open>sleep\<close> (line 57, with the \<^verbatim>\<open>runResult\<close> it will test again if it fetches
  nothing), the \<^verbatim>\<open>runs.retrieve\<close> of the loop (line 59) and \<^verbatim>\<open>runs.submitToolOutputs\<close>
  (line 99).
\<close>

datatype await_point =
    Awaits_messages_create
  | Awaits_runs_create
  | Awaits_first_retrieve
  | Awaits_sleep run
  | Awaits_retrieve
  | Awaits_submit

text \<open>
  A listener that was started: waiting at an \<^verbatim>\<open>await\<close>, at its end, or turning in the loop
  without ever giving the control back (a \<^verbatim>\<open>requires_action\<close> status with \<^verbatim>\<open>activeRun\<close>
  null: nothing is awaited and the same \<^verbatim>\<open>runResult\<close> is tested again).
\<close>

datatype task = Suspended await_point | Finished listener_end | Spinning

text \<open>
  What ends a wait: the awaited request failed, it completed with nothing to read (the message
  was created, the timer fired), or it answered with a \<^verbatim>\<open>Run\<close>.
\<close>

datatype wakeup = Fails | Completes | Gives run

text \<open>
  Once the promise of \<^verbatim>\<open>handleUserPrompt\<close> is settled the listener goes on after its
  \<^verbatim>\<open>await\<close> (lines 144 to 147) before any other event: it throws on a rejection and emits the
  snapshot on a fulfilment.
\<close>

definition listener_continues :: "settlement option \<Rightarrow> state \<Rightarrow> task \<times> state" where
  "listener_continues p s =
     (case p of
        None \<Rightarrow> (Finished Waiting, s)
      | Some (Rejected reason) \<Rightarrow> (Finished Threw, s)
      | Some Fulfilled \<Rightarrow> (Finished Returned, perform (Emit ''snapshot'' (Snapshot (shapes s))) s))"

text \<open>The \<^verbatim>\<open>catch\<close> block, and the listener after it.\<close>

definition caught :: "driver_error \<Rightarrow> settlement option \<Rightarrow> state \<Rightarrow> task \<times> state" where
  "caught err p s = (case catch_block err p s of (p', s') \<Rightarrow> listener_continues p' s')"

text \<open>
  From the top of the \<^verbatim>\<open>while\<close> loop to the next \<^verbatim>\<open>await\<close>, or to the end of the listener.
\<close>

definition loop_from :: "engine \<Rightarrow> settlement option \<Rightarrow> run \<Rightarrow> state \<Rightarrow> task \<times> state" where
  "loop_from E p runResult s =
     (if status runResult \<in> set pendingStatus then
        (if status runResult = ''in_progress'' \<or> status runResult = ''queued'' then
           (Suspended (Awaits_sleep runResult),
            perform (Sleep 1000) (perform (Emit ''updates'' (Text ''Processing your request...'')) s))
         else
           (case dispatch_all E (toolCalls_of runResult) s of
              (Inl err, s1) \<Rightarrow> caught err p s1
            | (Inr toolOutputs, s1) \<Rightarrow>
                (case activeRun s1 of
                   None \<Rightarrow> (Spinning, s1)
                 | Some a \<Rightarrow>
                     (Suspended Awaits_submit, perform (SubmitToolOutputs (run_id a) toolOutputs) s1))))
      else listener_continues (settle Fulfilled p)
             (perform (Emit ''updates'' (Text [])) (s\<lparr>activeRun := None\<rparr>)))"

text \<open>
  The event arrives: the listener tests \<^verbatim>\<open>activeRun\<close> (line 142) and either emits the snapshot
  and ends, or enters \<^verbatim>\<open>handleUserPrompt\<close>, which builds the message from the shapes as they
  are, sends it and waits (lines 26 to 29).
\<close>

definition arrive :: "engine \<Rightarrow> string \<Rightarrow> state \<Rightarrow> task \<times> state" where
  "arrive E message s =
     (if activeRun s = None then
        (Suspended Awaits_messages_create,
         perform (MessagesCreate (addMessageContext E (shapes s) message)) s)
      else (Finished Returned, perform (Emit ''snapshot'' (Snapshot (shapes s))) s))"

text \<open>
  The listener goes on from the place where it waited. \<^verbatim>\<open>activeRun\<close> is assigned when
  \<^verbatim>\<open>runs.create\<close> has answered (line 34), two waits after it was tested. A wake-up of a kind
  the place does not wait for leaves the listener waiting.
\<close>

definition resume :: "engine \<Rightarrow> await_point \<Rightarrow> wakeup \<Rightarrow> state \<Rightarrow> task \<times> state" where
  "resume E point w s =
     (case point of
        Awaits_messages_create \<Rightarrow>
          (case w of
             Completes \<Rightarrow> (Suspended Awaits_runs_create, perform RunsCreate s)
           | Fails \<Rightarrow> (Finished Waiting, s)
           | Gives r \<Rightarrow> (Suspended point, s))
      | Awaits_runs_create \<Rightarrow>
          (case w of
             Gives created \<Rightarrow>
               (Suspended Awaits_first_retrieve,
                perform (RunsRetrieve (run_id created)) (s\<lparr>activeRun := Some created\<rparr>))
           | Fails \<Rightarrow> (Finished Waiting, s)
           | Completes \<Rightarrow> (Suspended point, s))
      | Awaits_first_retrieve \<Rightarrow>
          (case w of
             Gives runResult \<Rightarrow>
               (if status runResult \<in> set failedStatus then
                  loop_from E
                    (settle (Rejected (Some (''run result failed with status: '' @ status runResult))) None)
                    runResult
                    (perform (Emit ''updates'' (Text (''Process failed with status: '' @ status runResult)))
                       (s\<lparr>activeRun := None\<rparr>))
                else loop_from E None runResult s)
           | Fails \<Rightarrow> caught ExternalServiceError None s
           | Completes \<Rightarrow> (Suspended point, s))
      | Awaits_sleep runResult \<Rightarrow>
          (case w of
             Completes \<Rightarrow>
               (case activeRun s of
                  Some a \<Rightarrow> (Suspended Awaits_retrieve, perform (RunsRetrieve (run_id a)) s)
                | None \<Rightarrow> loop_from E None runResult s)
           | _ \<Rightarrow> (Suspended point, s))
      | Awaits_retrieve \<Rightarrow>
          (case w of
             Gives runResult \<Rightarrow> loop_from E None runResult s
           | Fails \<Rightarrow> caught ExternalServiceError None s
           | Completes \<Rightarrow> (Suspended point, s))
      | Awaits_submit \<Rightarrow>
          (case w of
             Gives runResult \<Rightarrow> loop_from E None runResult s
           | Fails \<Rightarrow> caught ExternalServiceError None s
           | Completes \<Rightarrow> (Suspended point, s)))"

text \<open>
  What the event loop handles, one at a time: an instruction from a client, or the wake-up of
  the listener that was started \<open>i\<close>-th. Nothing is handled any more once a listener turns
  without giving the control back, or once a rejection was left unhandled, which ends the
  process (the default of Node.js): the listener threw, or a request failed inside the
  \<^verbatim>\<open>async\<close> executor of \<^verbatim>\<open>handleUserPrompt\<close> (the only way a listener ends waiting).
\<close>

fun stops :: "task \<Rightarrow> bool" where
  "stops Spinning = True"
| "stops (Finished Threw) = True"
| "stops (Finished Waiting) = True"
| "stops t = False"

datatype event = Instruction string | Wakeup nat wakeup

definition deliver :: "engine \<Rightarrow> event \<Rightarrow> state \<times> task list \<Rightarrow> state \<times> task list" where
  "deliver E ev c =
     (case c of (s, tasks) \<Rightarrow>
        if list_ex stops tasks then c
        else
          (case ev of
             Instruction message \<Rightarrow>
               (case arrive E message s of (t, s') \<Rightarrow> (s', tasks @ [t]))
           | Wakeup i w \<Rightarrow>
               (if i < length tasks then
                  (case tasks ! i of
                     Suspended point \<Rightarrow>
                       (case resume E point w s of (t, s') \<Rightarrow> (s', tasks[i := t]))
                   | _ \<Rightarrow> c)
                else c)))"

definition handle_events :: "engine \<Rightarrow> event list \<Rightarrow> state \<times> task list \<Rightarrow> state \<times> task list" where
  "handle_events E events c = foldl (\<lambda>c ev. deliver E ev c) c events"

text \<open>
  One listener with no other event in between: its sleeps end when they are due, and its
  fetches and submissions get the answers of the list, in order.
\<close>

definition wake_of :: "run reply \<Rightarrow> wakeup" where
  "wake_of r = (case r of Throws \<Rightarrow> Fails | Returns x \<Rightarrow> Gives x)"

definition after_sleep :: "engine \<Rightarrow> task \<times> state \<Rightarrow> task \<times> state" where
  "after_sleep E c =
     (case c of
        (Suspended (Awaits_sleep r), s) \<Rightarrow>
          (case activeRun s of Some a \<Rightarrow> resume E (Awaits_sleep r) Completes s | None \<Rightarrow> c)
      | _ \<Rightarrow> c)"

primrec drive :: "engine \<Rightarrow> run reply list \<Rightarrow> task \<times> state \<Rightarrow> task \<times> state" where
  "drive E [] c = after_sleep E c"
| "drive E (r # rs) c =
     (case after_sleep E c of
        (Suspended point, s) \<Rightarrow>
          (if point = Awaits_first_retrieve \<or> point = Awaits_retrieve \<or> point = Awaits_submit
           then drive E rs (resume E point (wake_of r) s)
           else (Suspended point, s))
      | c' \<Rightarrow> c')"

definition alone :: "engine \<Rightarrow> service \<Rightarrow> string \<Rightarrow> state \<Rightarrow> task \<times> state" where
  "alone E svc message s =
     (case arrive E message s of
        (Suspended point, s1) \<Rightarrow>
          (case resume E point (case messages_create svc of Throws \<Rightarrow> Fails | Returns u \<Rightarrow> Completes) s1 of
             (Suspended point', s2) \<Rightarrow>
               drive E (run_replies svc) (resume E point' (wake_of (runs_create svc)) s2)
           | c \<Rightarrow> c)
      | c \<Rightarrow> c)"

fun end_of :: "task \<Rightarrow> listener_end" where
  "end_of (Finished e) = e"
| "end_of t = Waiting"

definition listener_end_of :: "settlement option \<times> state \<Rightarrow> listener_end \<times> state" where
  "listener_end_of c =
     (case c of
        (None, s) \<Rightarrow> (Waiting, s)
      | (Some (Rejected reason), s) \<Rightarrow> (Threw, s)
      | (Some Fulfilled, s) \<Rightarrow> (Returned, perform (Emit ''snapshot'' (Snapshot (shapes s))) s))"

section \<open>Reading the effects\<close>

text \<open>
  What the loop of the driver and the dispatch inside it can do: an \<^verbatim>\<open>updates\<close> message to
  the caller, a log line, the sleep, a fetch, a submission.
\<close>

fun loop_effect :: "effect \<Rightarrow> bool" where
  "loop_effect (Emit ev p) = (ev = ''updates'')"
| "loop_effect (ConsoleError m err) = True"
| "loop_effect (Sleep n) = True"
| "loop_effect (RunsRetrieve i) = True"
| "loop_effect (SubmitToolOutputs i outs) = True"
| "loop_effect e = False"

text \<open>An emission to the other clients; an emission of a \<^verbatim>\<open>snapshot\<close>, to anybody.\<close>

fun is_broadcast :: "effect \<Rightarrow> bool" where
  "is_broadcast (BroadcastEmit ev p) = True"
| "is_broadcast e = False"

fun is_snapshot :: "effect \<Rightarrow> bool" where
  "is_snapshot (Emit ev p) = (ev = ''snapshot'')"
| "is_snapshot (BroadcastEmit ev p) = (ev = ''snapshot'')"
| "is_snapshot e = False"

text \<open>The number of \<^verbatim>\<open>runs.create\<close> requests among some effects.\<close>

definition runs_started :: "effect list \<Rightarrow> nat" where
  "runs_started es = length (filter (\<lambda>e. e = RunsCreate) es)"

text \<open>
  The runs the loop of the driver tests, given the first one and the answers to come: the loop
  goes on to the next answer while the status is pending and the request did not fail.
\<close>

fun visited :: "run \<Rightarrow> run reply list \<Rightarrow> run list" where
  "visited r [] = [r]"
| "visited r (reply # rs) =
     r # (if status r \<in> set pendingStatus
          then (case reply of Throws \<Rightarrow> [] | Returns r' \<Rightarrow> visited r' rs)
          else [])"

text \<open>The output lists of the submissions among some effects, in their order.\<close>

fun submissions :: "effect list \<Rightarrow> tool_output list list" where
  "submissions [] = []"
| "submissions (SubmitToolOutputs i outs # es) = outs # submissions es"
| "submissions (e # es) = submissions es"

text \<open>The argument text of every call of a run's batch is JSON.\<close>

definition parses :: "run \<Rightarrow> bool" where
  "parses r = list_all (\<lambda>call. arguments call \<noteq> None) (toolCalls_of r)"

section \<open>Example inputs\<close>

text \<open>
  A stand-in engine, for the examples that need one (it prints every shapes array the same
  way), and the state of a session nobody has touched yet, whose \<^verbatim>\<open>Math.random()\<close> keeps
  answering one half.
\<close>

definition sample_engine :: engine where
  "sample_engine =
     \<lparr>JSON_stringify = (\<lambda>ss. ''<shapes>''), JSON_stringify_indent = (\<lambda>ss. ''<shapes>''),
      type_error_message = (\<lambda>t. ''<message>'')\<rparr>"

definition idle :: state where
  "idle = \<lparr>shapes = [], activeRun = None, math_random = (\<lambda>n. 1 / 2), effects = []\<rparr>"

text \<open>
  The arguments of the two end-to-end scenarios of the specification: a red square at the
  origin, and shape 42 moved left by ten.
\<close>

definition red_square :: jsval where
  "red_square = Obj [(''x'', Num (Finite 0)), (''y'', Num (Finite 0)), (''w'', Num (Finite 50)),
     (''h'', Num (Finite 50)), (''color'', Str ''hsl(0,100%,50%)'')]"

definition shape_42 :: shape where
  "shape_42 = \<lparr>shape_x = Num (Finite 0), shape_y = Num (Finite 0), shape_w = Num (Finite 10),
     shape_h = Num (Finite 10), shape_color = Str ''hsl(0, 0%, 0%)'', shape_id = Num (Finite 42)\<rparr>"

definition move_left :: jsval where
  "move_left = Obj [(''id'', Num (Finite 42)), (''x'', Num (Finite (- 10)))]"

definition one_shape :: state where
  "one_shape = idle\<lparr>shapes := [shape_42]\<rparr>"

text \<open>
  Payloads for the failing paths and for the \<^verbatim>\<open>update-shape\<close> event: a width that is not
  finite, an \<^verbatim>\<open>id\<close> no shape has, and a drag of shape 42 that carries no \<^verbatim>\<open>w\<close> and no
  \<^verbatim>\<open>h\<close>.
\<close>

definition infinite_width :: jsval where
  "infinite_width = Obj [(''x'', Num (Finite 0)), (''y'', Num (Finite 0)), (''w'', Num PosInfinity),
     (''h'', Num (Finite 50))]"

definition other_id :: jsval where
  "other_id = Obj [(''id'', Num (Finite 7)), (''x'', Num (Finite 5))]"

definition drag :: jsval where
  "drag = Obj [(''id'', Num (Finite 42)), (''x'', Num (Finite 5)), (''y'', Num (Finite 7))]"

text \<open>A tool call with a name and arguments that parsed.\<close>

definition call_of :: "string \<Rightarrow> jsval \<Rightarrow> tool_call" where
  "call_of name a = \<lparr>call_id = Some ''call_1'', fn_name = name, arguments = Some a\<rparr>"

text \<open>
  The external service of the examples: it accepts the message, creates the run \<^verbatim>\<open>run_1\<close>
  as \<^verbatim>\<open>queued\<close>, and answers the fetches and submissions with the given runs.
\<close>

definition run_with :: "string \<Rightarrow> tool_call list option \<Rightarrow> run" where
  "run_with st calls = \<lparr>run_id = ''run_1'', status = st, required_action = calls\<rparr>"

definition service_with :: "run reply list \<Rightarrow> service" where
  "service_with rs =
     \<lparr>messages_create = Returns (), runs_create = Returns (run_with ''queued'' None), run_replies = rs\<rparr>"

text \<open>A call whose argument text is not JSON.\<close>

definition malformed_call :: tool_call where
  "malformed_call = \<lparr>call_id = Some ''call_1'', fn_name = ''createShape'', arguments = None\<rparr>"

text \<open>
  A service whose run completes at the first fetch, one that asks for the red square and then
  completes, and one whose run has failed at the first fetch.
\<close>

definition completing :: service where
  "completing = service_with [Returns (run_with ''completed'' None)]"

definition drawing :: service where
  "drawing = service_with
     [Returns (run_with ''requires_action'' (Some [call_of ''createShape'' red_square])),
      Returns (run_with ''completed'' None)]"

definition failing :: service where
  "failing = service_with [Returns (run_with ''failed'' None)]"

definition draw_request :: string where
  "draw_request = ''draw a red square at the origin''"

text \<open>
  A result of \<^verbatim>\<open>Math.random()\<close> at which the rounding of the product shows: the double
  nearest to \<open>0.00827\<close>.
\<close>

definition random_827 :: rat where
  "random_827 = 18622384459177 / 2 ^ 51"

text \<open>Two runs the service creates, and a second instruction.\<close>

definition run_1 :: run where
  "run_1 = run_with ''queued'' None"

definition run_2 :: run where
  "run_2 = \<lparr>run_id = ''run_2'', status = ''queued'', required_action = None\<rparr>"

definition circle_request :: string where
  "circle_request = ''draw a blue circle''"

text \<open>A service whose first fetch fails.\<close>

definition unreachable :: service where
  "unreachable = service_with [Throws]"

section \<open>Finding a shape\<close>

lemma find_index_None: "find_index P xs = None \<longleftrightarrow> (\<forall>x\<in>set xs. \<not> P x)"
  by (induction xs) auto

lemma find_index_Some:
  "find_index P xs = Some i \<Longrightarrow> i < length xs \<and> P (xs ! i) \<and> (\<forall>j<i. \<not> P (xs ! j))"
proof (induction xs arbitrary: i)
  case Nil
  then show ?case by simp
next
  case (Cons a as)
  show ?case
  proof (cases "P a")
    case True
    with Cons.prems show ?thesis by simp
  next
    case False
    with Cons.prems obtain k where k: "find_index P as = Some k" "i = Suc k"
      by auto
    from Cons.IH [OF k(1)] False k(2) show ?thesis
      by (auto simp: less_Suc_eq_0_disj)
  qed
qed

lemma find_index_member:
  "x \<in> set xs \<Longrightarrow> P x \<Longrightarrow> \<exists>i. find_index P xs = Some i"
  by (cases "find_index P xs") (auto simp: find_index_None)

lemma find_shape_by_id_Some:
  assumes "\<not> nullish p" and "sh \<in> set ss" and "strict_eq (shape_id sh) (own_property p ''id'')"
  shows "\<exists>i. find_shape_by_id ss p = Inr (Some i) \<and> i < length ss \<and>
           strict_eq (shape_id (ss ! i)) (own_property p ''id'') \<and>
           (\<forall>j<i. \<not> strict_eq (shape_id (ss ! j)) (own_property p ''id''))"
proof -
  let ?P = "\<lambda>shape. strict_eq (shape_id shape) (own_property p ''id'')"
  from assms(2,3) obtain i where i: "find_index ?P ss = Some i"
    using find_index_member [of sh ss ?P] by blast
  from assms(2) have "ss \<noteq> []" by auto
  with assms(1) i have "find_shape_by_id ss p = Inr (Some i)"
    by (simp add: find_shape_by_id_def)
  with find_index_Some [OF i] show ?thesis by blast
qed


section \<open>The rounded product\<close>

lemma round_half_even_cases:
  "round_half_even y = \<lfloor>y\<rfloor> \<or> round_half_even y = \<lfloor>y\<rfloor> + 1"
  by (simp add: round_half_even_def Let_def)

lemma round_half_even_nonneg: "0 \<le> y \<Longrightarrow> 0 \<le> round_half_even y"
  using round_half_even_cases [of y] by (auto simp: zero_le_floor)

lemma round_half_even_of_int [simp]: "round_half_even (of_int k) = k"
  by (simp add: round_half_even_def)

lemma round_half_even_le:
  assumes "y \<le> of_int N" shows "round_half_even y \<le> N"
proof (cases "\<lfloor>y\<rfloor> = N")
  case True
  then have "of_int N \<le> y" by (metis of_int_floor_le)
  with assms have "y = of_int N" by simp
  then show ?thesis by simp
next
  case False
  from assms have "\<lfloor>y\<rfloor> \<le> N" by (simp add: floor_le_iff)
  with False have "\<lfloor>y\<rfloor> + 1 \<le> N" by simp
  with round_half_even_cases [of y] show ?thesis by auto
qed

lemma round_half_even_below_half:
  assumes "y < of_int N - 1 / 2" shows "round_half_even y \<le> N - 1"
proof (cases "\<lfloor>y\<rfloor> = N - 1")
  case True
  with assms have "y - of_int \<lfloor>y\<rfloor> < 1 / 2" by simp
  with True show ?thesis by (simp add: round_half_even_def Let_def)
next
  case False
  from assms have "y < of_int N" by simp
  then have "\<lfloor>y\<rfloor> < N" by (simp add: floor_less_iff)
  with False have "\<lfloor>y\<rfloor> + 1 \<le> N - 1" by simp
  with round_half_even_cases [of y] show ?thesis by auto
qed

lemma ulp_from_binade:
  assumes "f \<le> E" and "- 1022 \<le> f" and "2 powi f \<le> a" and "a < 2 powi (f + 1)"
  shows "ulp_from E a = 2 powi (f - 52)"
  using assms(1)
proof (induction E rule: int_ge_induct)
  case base
  from assms(2,3) show ?case
    by (subst ulp_from.simps) auto
next
  case (step i)
  have "(2::rat) powi (f + 1) \<le> 2 powi (i + 1)"
    using step.hyps by (intro power_int_increasing) auto
  with assms(4) have "\<not> 2 powi (i + 1) \<le> a" by simp
  moreover from step.hyps assms(2) have "\<not> i + 1 \<le> - 1022" by simp
  ultimately show ?case using step.IH
    by (subst ulp_from.simps) simp
qed

lemma ulp_from_cases:
  assumes "- 1022 \<le> E" and "a < 2 powi (E + 1)"
  shows "\<exists>f. - 1022 \<le> f \<and> f \<le> E \<and> ulp_from E a = 2 powi (f - 52) \<and> a < 2 powi (f + 1) \<and>
           (2 powi f \<le> a \<or> f = - 1022)"
  using assms
proof (induction E rule: int_ge_induct)
  case base
  then show ?case
    by (subst ulp_from.simps) auto
next
  case (step i)
  show ?case
  proof (cases "2 powi (i + 1) \<le> a")
    case True
    with step.hyps step.prems have "ulp_from (i + 1) a = 2 powi (i + 1 - 52)"
      by (subst ulp_from.simps) simp
    with True step.hyps step.prems show ?thesis
      by (intro exI [of _ "i + 1"]) simp
  next
    case False
    then have lt: "a < 2 powi (i + 1)" by simp
    from step.hyps False have eq: "ulp_from (i + 1) a = ulp_from i a"
      by (subst ulp_from.simps) simp
    from step.IH [OF lt] obtain f where
      f: "- 1022 \<le> f" "f \<le> i" "ulp_from i a = 2 powi (f - 52)" "a < 2 powi (f + 1)"
        "2 powi f \<le> a \<or> f = - 1022"
      by blast
    from f(2) have "f \<le> i + 1" by simp
    with f eq show ?thesis by auto
  qed
qed

lemma to_double_exact:
  assumes "- 1022 \<le> f" and "f \<le> 1023" and "2 powi f \<le> x" and "x < 2 powi (f + 1)"
    and "x = of_int k * 2 powi (f - 52)"
  shows "to_double x = Finite x"
proof -
  have pos: "0 < x" using assms(3) by (rule less_le_trans [rotated]) simp
  have q: "ulp_from 1023 x = 2 powi (f - 52)"
    by (rule ulp_from_binade [OF assms(2,1,3,4)])
  have "x / 2 powi (f - 52) = of_int k" using assms(5) by simp
  then have m: "of_int (round_half_even (x / 2 powi (f - 52))) * 2 powi (f - 52) = x"
    using assms(5) by simp
  have "(2::rat) powi (f + 1) \<le> 2 powi 1024"
    using assms(2) by (intro power_int_increasing) auto
  with assms(4) have "\<not> 2 powi 1024 \<le> x" by simp
  with pos q m show ?thesis
    by (simp add: to_double_def Let_def)
qed

lemma double_below_one:
  assumes "is_double r" and "r < 1"
  shows "r \<le> 1 - 1 / 2 ^ 53"
proof (cases "r < 1 / 2")
  case True
  have "(1::rat) / 2 \<le> 1 - 1 / 2 ^ 53" by simp
  with True show ?thesis by simp
next
  case False
  then have lo: "2 powi (- 1) \<le> r" by simp
  from assms(2) have hi: "r < 2 powi (- 1 + 1)" by simp
  have pos: "0 < r" using lo by (rule less_le_trans [rotated]) simp
  define q :: rat where "q = 2 powi (- 1 - 52)"
  have q: "ulp_from 1023 r = q"
    unfolding q_def by (rule ulp_from_binade [OF _ _ lo hi]) simp_all
  define k where "k = round_half_even (r / q)"
  from pos q have "to_double r =
      (if 2 powi 1024 \<le> of_int k * q then PosInfinity else Finite (of_int k * q))"
    by (simp add: to_double_def Let_def k_def)
  with assms(1) have "r = of_int k * q"
    by (simp add: is_double_def split: if_splits)
  then have r: "r = of_int k * 2 powi (- 53)" by (simp add: q_def)
  then have "r = of_int k / 2 ^ 53"
    by (simp add: power_int_minus field_simps)
  with assms(2) have "(of_int k :: rat) < 2 ^ 53" by (simp add: field_simps)
  then have "(of_int k :: rat) < of_int (2 ^ 53)" by simp
  then have "k < 2 ^ 53" by (simp only: of_int_less_iff)
  then have "k \<le> 2 ^ 53 - 1" by simp
  then have "(of_int k :: rat) \<le> of_int (2 ^ 53 - 1)" by (simp only: of_int_le_iff)
  then have "(of_int k :: rat) \<le> 2 ^ 53 - 1" by simp
  with \<open>r = of_int k / 2 ^ 53\<close> show ?thesis by (simp add: field_simps)
qed

lemma scaled_product_in_range:
  assumes "0 \<le> x" and "x \<le> 100000 - 100000 / 2 ^ 53"
  shows "\<exists>m. to_double x = Finite m \<and> 0 \<le> m \<and> m < 100000"
proof -
  have "x < 100000" using assms(2) by simp
  also have "(100000::rat) < 2 powi (1023 + 1)" by simp
  finally have "x < 2 powi (1023 + 1)" .
  from ulp_from_cases [OF _ this] obtain f where
    f: "- 1022 \<le> f" "f \<le> 1023" "ulp_from 1023 x = 2 powi (f - 52)" "x < 2 powi (f + 1)"
      "2 powi f \<le> x \<or> f = - 1022"
    by auto
  define m where "m = of_int (round_half_even (x / 2 powi (f - 52))) * (2::rat) powi (f - 52)"
  have m0: "0 \<le> m"
    unfolding m_def using assms(1) by (intro mult_nonneg_nonneg) (simp_all add: round_half_even_nonneg)
  have mlt: "m < 100000"
  proof -
    consider "17 \<le> f" | "f = 16" | "f \<le> 15" by linarith
    then show ?thesis
    proof cases
      case 1
      then have "(2::rat) powi 17 \<le> 2 powi f" by (intro power_int_increasing) auto
      moreover from 1 f(5) have "2 powi f \<le> x" by auto
      ultimately have "(2::rat) powi 17 \<le> x" by simp
      with \<open>x < 100000\<close> show ?thesis by simp
    next
      case 2
      have "x / 2 powi (16 - 52) = x * 2 ^ 36"
        by (simp add: power_int_minus field_simps)
      also have "\<dots> \<le> (100000 - 100000 / 2 ^ 53) * 2 ^ 36"
        using assms(2) by (intro mult_right_mono) simp_all
      also have "\<dots> < of_int (100000 * 2 ^ 36) - 1 / 2" by simp
      finally have "round_half_even (x / 2 powi (16 - 52)) \<le> 100000 * 2 ^ 36 - 1"
        by (rule round_half_even_below_half)
      then have "(of_int (round_half_even (x / 2 powi (16 - 52))) :: rat) \<le> of_int (100000 * 2 ^ 36 - 1)"
        by (simp only: of_int_le_iff)
      then have "m \<le> of_int (100000 * 2 ^ 36 - 1) * 2 powi (16 - 52)"
        unfolding m_def 2 by (intro mult_right_mono) simp_all
      also have "\<dots> < 100000" by (simp add: power_int_minus field_simps)
      finally show ?thesis .
    next
      case 3
      have "x / 2 powi (f - 52) < 2 powi (f + 1) / 2 powi (f - 52)"
        using f(4) by (intro divide_strict_right_mono) simp_all
      also have "\<dots> = 2 powi 53"
        by (simp add: power_int_diff [symmetric])
      finally have "x / 2 powi (f - 52) \<le> of_int (2 ^ 53)" by simp
      then have "round_half_even (x / 2 powi (f - 52)) \<le> 2 ^ 53"
        by (rule round_half_even_le)
      then have "(of_int (round_half_even (x / 2 powi (f - 52))) :: rat) \<le> of_int (2 ^ 53)"
        by (simp only: of_int_le_iff)
      then have "m \<le> of_int (2 ^ 53) * 2 powi (f - 52)"
        unfolding m_def by (intro mult_right_mono) simp_all
      also have "\<dots> = 2 powi (f + 1)"
      proof -
        have "f + 1 = 53 + (f - 52)" by simp
        then have "(2::rat) powi (f + 1) = 2 powi (53 + (f - 52))" by (rule arg_cong)
        also have "\<dots> = 2 powi 53 * 2 powi (f - 52)" by (rule power_int_add) simp
        finally show ?thesis by simp
      qed
      also have "\<dots> \<le> 2 powi 16" using 3 by (intro power_int_increasing) auto
      also have "\<dots> < (100000::rat)" by simp
      finally show ?thesis .
    qed
  qed
  have "\<not> 2 powi 1024 \<le> m" using mlt by simp
  with assms(1) f(3) m0 mlt show ?thesis
    by (simp add: to_double_def Let_def m_def [symmetric])
qed

lemma random_id_in_range:
  assumes "is_double r" and "0 \<le> r" and "r < 1"
  shows "\<exists>n. Math_floor (to_double (r * 100000)) = Finite (of_int n) \<and> 0 \<le> n \<and> n < 100000"
proof -
  from double_below_one [OF assms(1,3)] have "r * 100000 \<le> (1 - 1 / 2 ^ 53) * 100000"
    by (intro mult_right_mono) simp_all
  then have "r * 100000 \<le> 100000 - 100000 / 2 ^ 53" by (simp add: algebra_simps)
  moreover have "0 \<le> r * 100000" using assms(2) by simp
  ultimately obtain m where m: "to_double (r * 100000) = Finite m" "0 \<le> m" "m < 100000"
    using scaled_product_in_range by blast
  from m(2,3) have "0 \<le> \<lfloor>m\<rfloor>" "\<lfloor>m\<rfloor> < 100000" by (simp_all add: floor_less_iff)
  with m(1) show ?thesis by (simp add: Math_floor_def)
qed

lemma to_double_in_binade:
  assumes "- 1022 \<le> f" and "f < 1023" and "2 powi f \<le> x" and "x < 2 powi (f + 1)"
  shows "to_double x = Finite (of_int (round_half_even (x / 2 powi (f - 52))) * 2 powi (f - 52))"
proof -
  have pos: "0 < x" using assms(3) by (rule less_le_trans [rotated]) simp
  have q: "ulp_from 1023 x = 2 powi (f - 52)"
    using assms by (intro ulp_from_binade) simp_all
  have "x / 2 powi (f - 52) < 2 powi (f + 1) / 2 powi (f - 52)"
    using assms(4) by (intro divide_strict_right_mono) simp_all
  also have "\<dots> = 2 powi 53"
    by (simp add: power_int_diff [symmetric])
  finally have "x / 2 powi (f - 52) \<le> of_int (2 ^ 53)" by simp
  then have "round_half_even (x / 2 powi (f - 52)) \<le> 2 ^ 53"
    by (rule round_half_even_le)
  then have "(of_int (round_half_even (x / 2 powi (f - 52))) :: rat) \<le> of_int (2 ^ 53)"
    by (simp only: of_int_le_iff)
  then have "of_int (round_half_even (x / 2 powi (f - 52))) * 2 powi (f - 52) \<le>
      of_int (2 ^ 53) * (2::rat) powi (f - 52)"
    by (intro mult_right_mono) simp_all
  also have "\<dots> = 2 powi (f + 1)"
  proof -
    have "f + 1 = 53 + (f - 52)" by simp
    then have "(2::rat) powi (f + 1) = 2 powi (53 + (f - 52))" by (rule arg_cong)
    also have "\<dots> = 2 powi 53 * 2 powi (f - 52)" by (rule power_int_add) simp
    finally show ?thesis by simp
  qed
  also have "\<dots> < 2 powi 1024" using assms(2) by (intro power_int_strict_increasing) auto
  finally have "\<not> 2 powi 1024 \<le> of_int (round_half_even (x / 2 powi (f - 52))) * (2::rat) powi (f - 52)"
    by simp
  with pos q show ?thesis
    by (simp add: to_double_def Let_def)
qed

text \<open>Two doubles of the examples.\<close>

lemma half_is_double: "is_double (1 / 2)"
  unfolding is_double_def
  by (rule to_double_exact [where f = "- 1" and k = "2 ^ 52"]) (simp_all add: power_int_minus)

lemma to_double_50000: "to_double 50000 = Finite 50000"
  by (rule to_double_exact [where f = 15 and k = "50000 * 2 ^ 37"]) (simp_all add: power_int_minus)

text \<open>
  At the double nearest to \<open>0.00827\<close> the exact product lies just below \<open>827\<close> and rounds to
  it: the \<^verbatim>\<open>id\<close> is \<open>827\<close>, where the floor of the exact product is \<open>826\<close>.
\<close>

lemma random_827_is_double: "is_double random_827"
  unfolding is_double_def random_827_def
  by (rule to_double_exact [where f = "- 7" and k = "18622384459177 * 2 ^ 8"])
    (simp_all add: power_int_minus)

lemma random_827_exact_floor: "\<lfloor>random_827 * 100000\<rfloor> = 826"
  by (simp add: random_827_def floor_unique)

lemma random_827_id: "Math_floor (to_double (random_827 * 100000)) = Finite 827"
proof -
  have x: "random_827 * 100000 = 1862238445917700000 / 2 ^ 51"
    by (simp add: random_827_def)
  have y: "(1862238445917700000::rat) / 2 ^ 51 / 2 powi (9 - 52) = 58194951434928125 / 8"
    by (simp add: power_int_minus)
  have fl: "\<lfloor>(58194951434928125::rat) / 8\<rfloor> = 7274368929366015"
    by (rule floor_unique) simp_all
  have r: "round_half_even (1862238445917700000 / 2 ^ 51 / 2 powi (9 - 52)) = 827 * 2 ^ 43"
    unfolding y by (simp add: round_half_even_def Let_def fl)
  have "to_double (1862238445917700000 / 2 ^ 51) =
      Finite (of_int (round_half_even (1862238445917700000 / 2 ^ 51 / 2 powi (9 - 52))) * 2 powi (9 - 52))"
    by (rule to_double_in_binade) (simp_all add: power_int_minus)
  also have "\<dots> = Finite 827"
    unfolding r by (simp add: power_int_minus)
  finally show ?thesis by (simp add: x Math_floor_def)
qed

section \<open>The tool handlers\<close>

text \<open>
  Claim C6. For all \<^verbatim>\<open>createShape\<close> arguments whose \<^verbatim>\<open>x\<close>, \<^verbatim>\<open>y\<close>, \<^verbatim>\<open>w\<close> and \<^verbatim>\<open>h\<close> are
  finite numbers, and a \<^verbatim>\<open>Math.random()\<close> that is a double in \<open>[0, 1)\<close>, the handler succeeds, the shapes
  array is the old one with exactly one shape appended, the new shape's \<^verbatim>\<open>x\<close>, \<^verbatim>\<open>y\<close>,
  \<^verbatim>\<open>w\<close>, \<^verbatim>\<open>h\<close> are the arguments', its colour is the argument's, or
  \<^verbatim>\<open>hsl(0, 0%, 0%)\<close> when the argument has none (a \<^verbatim>\<open>null\<close> colour counts as none), and its
  \<^verbatim>\<open>id\<close> is an integer \<open>n\<close> with \<open>0 \<le> n < 100000\<close>.
\<close>

theorem createShape_appends:
  assumes "Number_isFinite (optional_get a ''x'')" and "Number_isFinite (optional_get a ''y'')"
    and "Number_isFinite (optional_get a ''w'')" and "Number_isFinite (optional_get a ''h'')"
    and "is_double (math_random s 0)" and "0 \<le> math_random s 0" and "math_random s 0 < 1"
  shows "\<exists>s' new n. createShape a s = Inr s' \<and> shapes s' = shapes s @ [new] \<and>
           length (shapes s') = length (shapes s) + 1 \<and>
           shape_x new = optional_get a ''x'' \<and> shape_y new = optional_get a ''y'' \<and>
           shape_w new = optional_get a ''w'' \<and> shape_h new = optional_get a ''h'' \<and>
           shape_color new =
             (if nullish (optional_get a ''color'') then Str ''hsl(0, 0%, 0%)''
              else optional_get a ''color'') \<and>
           shape_id new = Num (Finite (of_int n)) \<and> 0 \<le> n \<and> n < 100000"
proof -
  have nn: "\<not> nullish a"
    using assms(1) by (auto simp: optional_get_def Number_isFinite_def)
  from random_id_in_range [OF assms(5-7)] obtain n where
    n: "Math_floor (to_double (math_random s 0 * 100000)) = Finite (of_int n)" "0 \<le> n" "n < 100000"
    by blast
  show ?thesis
    using assms(1-4) nn n
    by (simp add: createShape_def optional_get_def nullish_coalesce_def)
qed

theorem createShape_appends_witness:
  "Number_isFinite (optional_get red_square ''x'') \<and> Number_isFinite (optional_get red_square ''y'') \<and>
   Number_isFinite (optional_get red_square ''w'') \<and> Number_isFinite (optional_get red_square ''h'') \<and>
   is_double (math_random idle 0) \<and> 0 \<le> math_random idle 0 \<and> math_random idle 0 < 1 \<and>
   (\<exists>s' new n. createShape red_square idle = Inr s' \<and> shapes s' = shapes idle @ [new] \<and>
           length (shapes s') = length (shapes idle) + 1 \<and>
           shape_x new = optional_get red_square ''x'' \<and> shape_y new = optional_get red_square ''y'' \<and>
           shape_w new = optional_get red_square ''w'' \<and> shape_h new = optional_get red_square ''h'' \<and>
           shape_color new =
             (if nullish (optional_get red_square ''color'') then Str ''hsl(0, 0%, 0%)''
              else optional_get red_square ''color'') \<and>
           shape_id new = Num (Finite (of_int n)) \<and> 0 \<le> n \<and> n < 100000)"
proof -
  have h: "Number_isFinite (optional_get red_square ''x'')" "Number_isFinite (optional_get red_square ''y'')"
    "Number_isFinite (optional_get red_square ''w'')" "Number_isFinite (optional_get red_square ''h'')"
    by (simp_all add: red_square_def optional_get_def nullish_def Number_isFinite_def)
  have r: "is_double (math_random idle 0)" "0 \<le> math_random idle 0" "math_random idle 0 < 1"
    by (simp_all add: idle_def half_is_double)
  from createShape_appends [OF h r] h r show ?thesis by blast
qed

text \<open>
  Claim C7. An \<^verbatim>\<open>editExistingShape\<close> call whose \<^verbatim>\<open>id\<close> is that of a shape of the array
  succeeds and edits the first such shape, at position \<open>i\<close>: the array keeps its length, every
  other position keeps its shape, the edited shape keeps its \<^verbatim>\<open>id\<close>, and each of \<^verbatim>\<open>x\<close>,
  \<^verbatim>\<open>y\<close>, \<^verbatim>\<open>w\<close>, \<^verbatim>\<open>h\<close>, \<^verbatim>\<open>color\<close> takes the argument's value when the argument supplies
  one and keeps its prior value when the argument omits it (or gives \<^verbatim>\<open>null\<close>). Nothing else
  of the state changes.
\<close>

theorem editExistingShape_frame:
  assumes "\<not> nullish a" and "sh \<in> set (shapes s)"
    and "strict_eq (shape_id sh) (own_property a ''id'')"
  shows "\<exists>i s'. editExistingShape a s = Inr s' \<and> i < length (shapes s) \<and>
           strict_eq (shape_id (shapes s ! i)) (own_property a ''id'') \<and>
           (\<forall>j<i. \<not> strict_eq (shape_id (shapes s ! j)) (own_property a ''id'')) \<and>
           length (shapes s') = length (shapes s) \<and>
           (\<forall>j<length (shapes s). j \<noteq> i \<longrightarrow> shapes s' ! j = shapes s ! j) \<and>
           shape_id (shapes s' ! i) = shape_id (shapes s ! i) \<and>
           shape_x (shapes s' ! i) =
             (if nullish (optional_get a ''x'') then shape_x (shapes s ! i) else optional_get a ''x'') \<and>
           shape_y (shapes s' ! i) =
             (if nullish (optional_get a ''y'') then shape_y (shapes s ! i) else optional_get a ''y'') \<and>
           shape_w (shapes s' ! i) =
             (if nullish (optional_get a ''w'') then shape_w (shapes s ! i) else optional_get a ''w'') \<and>
           shape_h (shapes s' ! i) =
             (if nullish (optional_get a ''h'') then shape_h (shapes s ! i) else optional_get a ''h'') \<and>
           shape_color (shapes s' ! i) =
             (if nullish (optional_get a ''color'') then shape_color (shapes s ! i)
              else optional_get a ''color'') \<and>
           activeRun s' = activeRun s \<and> effects s' = effects s"
proof -
  from find_shape_by_id_Some [OF assms] obtain i where
    f: "find_shape_by_id (shapes s) a = Inr (Some i)" and i: "i < length (shapes s)"
    and m: "strict_eq (shape_id (shapes s ! i)) (own_property a ''id'')"
    and first: "\<forall>j<i. \<not> strict_eq (shape_id (shapes s ! j)) (own_property a ''id'')"
    by blast
  define new where "new = (shapes s ! i)
     \<lparr> shape_x := nullish_coalesce (optional_get a ''x'') (shape_x (shapes s ! i)),
       shape_y := nullish_coalesce (optional_get a ''y'') (shape_y (shapes s ! i)),
       shape_w := nullish_coalesce (optional_get a ''w'') (shape_w (shapes s ! i)),
       shape_h := nullish_coalesce (optional_get a ''h'') (shape_h (shapes s ! i)),
       shape_color := nullish_coalesce (optional_get a ''color'') (shape_color (shapes s ! i)) \<rparr>"
  have run: "editExistingShape a s = Inr (s\<lparr>shapes := (shapes s)[i := new]\<rparr>)"
    using f by (simp add: editExistingShape_def new_def Let_def)
  show ?thesis
    apply (rule exI [of _ i])
    apply (rule exI [of _ "s\<lparr>shapes := (shapes s)[i := new]\<rparr>"])
    using run i m first
    apply (simp add: new_def nullish_coalesce_def)
    done
qed

theorem editExistingShape_frame_witness:
  "\<not> nullish move_left \<and> shape_42 \<in> set (shapes one_shape) \<and>
   strict_eq (shape_id shape_42) (own_property move_left ''id'') \<and>
   (\<exists>i s'. editExistingShape move_left one_shape = Inr s' \<and> i < length (shapes one_shape) \<and>
           strict_eq (shape_id (shapes one_shape ! i)) (own_property move_left ''id'') \<and>
           (\<forall>j<i. \<not> strict_eq (shape_id (shapes one_shape ! j)) (own_property move_left ''id'')) \<and>
           length (shapes s') = length (shapes one_shape) \<and>
           (\<forall>j<length (shapes one_shape). j \<noteq> i \<longrightarrow> shapes s' ! j = shapes one_shape ! j) \<and>
           shape_id (shapes s' ! i) = shape_id (shapes one_shape ! i) \<and>
           shape_x (shapes s' ! i) =
             (if nullish (optional_get move_left ''x'') then shape_x (shapes one_shape ! i)
              else optional_get move_left ''x'') \<and>
           shape_y (shapes s' ! i) =
             (if nullish (optional_get move_left ''y'') then shape_y (shapes one_shape ! i)
              else optional_get move_left ''y'') \<and>
           shape_w (shapes s' ! i) =
             (if nullish (optional_get move_left ''w'') then shape_w (shapes one_shape ! i)
              else optional_get move_left ''w'') \<and>
           shape_h (shapes s' ! i) =
             (if nullish (optional_get move_left ''h'') then shape_h (shapes one_shape ! i)
              else optional_get move_left ''h'') \<and>
           shape_color (shapes s' ! i) =
             (if nullish (optional_get move_left ''color'') then shape_color (shapes one_shape ! i)
              else optional_get move_left ''color'') \<and>
           activeRun s' = activeRun one_shape \<and> effects s' = effects one_shape)"
proof -
  have h1: "\<not> nullish move_left" by (simp add: move_left_def nullish_def)
  have h2: "shape_42 \<in> set (shapes one_shape)" by (simp add: one_shape_def)
  have h3: "strict_eq (shape_id shape_42) (own_property move_left ''id'')"
    by (simp add: shape_42_def move_left_def)
  from editExistingShape_frame [OF h1 h2 h3] h1 h2 h3 show ?thesis by blast
qed

text \<open>The second scenario of the specification, computed: only \<^verbatim>\<open>x\<close> changes.\<close>

lemma move_left_result:
  "editExistingShape move_left one_shape =
     Inr (one_shape\<lparr>shapes := [shape_42\<lparr>shape_x := Num (Finite (- 10))\<rparr>]\<rparr>)"
  by (simp add: editExistingShape_def find_shape_by_id_def move_left_def one_shape_def shape_42_def
      nullish_def optional_get_def nullish_coalesce_def idle_def)

lemma shapes_perform [simp]: "shapes (perform e s) = shapes s"
  by (simp add: perform_def)

lemma activeRun_perform [simp]: "activeRun (perform e s) = activeRun s"
  by (simp add: perform_def)

lemma effects_perform [simp]: "effects (perform e s) = effects s @ [e]"
  by (simp add: perform_def)

lemma functions_get_own [simp]:
  "functions_get ''createShape'' = Some CreateShape"
  "functions_get ''editExistingShape'' = Some EditExistingShape"
  by (simp_all add: functions_get_def)

lemma createShape_rejects:
  "\<not> Number_isFinite (optional_get a ''x'') \<or> \<not> Number_isFinite (optional_get a ''y'') \<or>
   \<not> Number_isFinite (optional_get a ''w'') \<or> \<not> Number_isFinite (optional_get a ''h'') \<Longrightarrow>
   createShape a s = Inl (Error ''required params were not given'')"
  by (auto simp: createShape_def)

lemma editExistingShape_rejects:
  assumes "nullish a \<or> (\<forall>sh\<in>set (shapes s). \<not> strict_eq (shape_id sh) (own_property a ''id''))"
  shows "editExistingShape a s =
     Inl (if nullish a \<and> shapes s \<noteq> [] then TypeError (Property_of_nullish a ''id'')
          else Error ''could not find shape'')"
proof (cases "nullish a \<or> shapes s = []")
  case True
  then show ?thesis
    by (auto simp: editExistingShape_def find_shape_by_id_def)
next
  case False
  with assms have "\<forall>sh\<in>set (shapes s). \<not> strict_eq (shape_id sh) (own_property a ''id'')"
    by blast
  then have "find_index (\<lambda>shape. strict_eq (shape_id shape) (own_property a ''id'')) (shapes s) = None"
    by (simp add: find_index_None)
  with False show ?thesis
    by (simp add: editExistingShape_def find_shape_by_id_def)
qed

lemma dispatch_atomic:
  "shapes (snd (dispatch E call s)) = shapes s \<or>
   (\<exists>out. fst (dispatch E call s) = Inr out \<and>
      output_text out = ''Success. New shapes array: '' @ JSON_stringify E (shapes (snd (dispatch E call s))))"
  by (simp add: dispatch_def split: option.split sum.split)

text \<open>
  Claim C5. A dispatch that fails never changes the shapes: for every call whose arguments
  parsed, either the shapes array is what it was or the output text is the success text. In
  particular, from every state, a \<^verbatim>\<open>createShape\<close> call one of whose \<^verbatim>\<open>x\<close>, \<^verbatim>\<open>y\<close>, \<^verbatim>\<open>w\<close>,
  \<^verbatim>\<open>h\<close> is not a finite number answers \<^verbatim>\<open>Error: required params were not given\<close>, and an
  \<^verbatim>\<open>editExistingShape\<close> call whose \<^verbatim>\<open>id\<close> no shape has (or whose arguments are \<^verbatim>\<open>null\<close>)
  answers the text of the error thrown, \<^verbatim>\<open>Error: could not find shape\<close> or the engine's
  \<^verbatim>\<open>TypeError\<close>; in both cases the state only gains the notification to the caller, and the
  shapes array is unmodified.
\<close>

theorem failed_dispatch_keeps_shapes:
  assumes "arguments call = Some a"
  shows "(shapes (snd (dispatch E call s)) = shapes s \<or>
          (\<exists>out. fst (dispatch E call s) = Inr out \<and>
             output_text out =
               ''Success. New shapes array: '' @ JSON_stringify E (shapes (snd (dispatch E call s))))) \<and>
         (fn_name call = ''createShape'' \<and>
          (\<not> Number_isFinite (optional_get a ''x'') \<or> \<not> Number_isFinite (optional_get a ''y'') \<or>
           \<not> Number_isFinite (optional_get a ''w'') \<or> \<not> Number_isFinite (optional_get a ''h'')) \<longrightarrow>
            dispatch E call s =
              (Inr \<lparr>tool_call_id = id_or_empty call,
                    output_text = ''Error: required params were not given''\<rparr>,
               perform (Emit ''updates'' (Text ''Process encountered errors, restarting...'')) s)) \<and>
         (fn_name call = ''editExistingShape'' \<and>
          (nullish a \<or> (\<forall>sh\<in>set (shapes s). \<not> strict_eq (shape_id sh) (own_property a ''id''))) \<longrightarrow>
            dispatch E call s =
              (Inr \<lparr>tool_call_id = id_or_empty call,
                    output_text =
                      (if nullish a \<and> shapes s \<noteq> []
                       then ''TypeError: '' @ type_error_message E (Property_of_nullish a ''id'')
                       else ''Error: could not find shape'')\<rparr>,
               perform (Emit ''updates'' (Text ''Process encountered errors, restarting...'')) s)) \<and>
         shapes (perform (Emit ''updates'' (Text ''Process encountered errors, restarting...'')) s) =
           shapes s"
proof (intro conjI impI)
  show "shapes (snd (dispatch E call s)) = shapes s \<or>
          (\<exists>out. fst (dispatch E call s) = Inr out \<and>
             output_text out =
               ''Success. New shapes array: '' @ JSON_stringify E (shapes (snd (dispatch E call s))))"
    by (rule dispatch_atomic)
next
  assume "fn_name call = ''createShape'' \<and>
          (\<not> Number_isFinite (optional_get a ''x'') \<or> \<not> Number_isFinite (optional_get a ''y'') \<or>
           \<not> Number_isFinite (optional_get a ''w'') \<or> \<not> Number_isFinite (optional_get a ''h''))"
  then have n: "fn_name call = ''createShape''"
    and r: "createShape a s = Inl (Error ''required params were not given'')"
    using createShape_rejects by blast+
  show "dispatch E call s =
              (Inr \<lparr>tool_call_id = id_or_empty call,
                    output_text = ''Error: required params were not given''\<rparr>,
               perform (Emit ''updates'' (Text ''Process encountered errors, restarting...'')) s)"
    using assms n r by (simp add: dispatch_def call_fn_def)
next
  assume "fn_name call = ''editExistingShape'' \<and>
          (nullish a \<or> (\<forall>sh\<in>set (shapes s). \<not> strict_eq (shape_id sh) (own_property a ''id'')))"
  then have n: "fn_name call = ''editExistingShape''"
    and r: "editExistingShape a s =
     Inl (if nullish a \<and> shapes s \<noteq> [] then TypeError (Property_of_nullish a ''id'')
          else Error ''could not find shape'')"
    using editExistingShape_rejects by blast+
  show "dispatch E call s =
              (Inr \<lparr>tool_call_id = id_or_empty call,
                    output_text =
                      (if nullish a \<and> shapes s \<noteq> []
                       then ''TypeError: '' @ type_error_message E (Property_of_nullish a ''id'')
                       else ''Error: could not find shape'')\<rparr>,
               perform (Emit ''updates'' (Text ''Process encountered errors, restarting...'')) s)"
    using assms n r by (simp add: dispatch_def call_fn_def)
next
  show "shapes (perform (Emit ''updates'' (Text ''Process encountered errors, restarting...'')) s) =
           shapes s"
    by simp
qed

theorem failed_dispatch_keeps_shapes_witness:
  "arguments (call_of ''createShape'' infinite_width) = Some infinite_width \<and>
   \<not> Number_isFinite (optional_get infinite_width ''w'') \<and>
   dispatch sample_engine (call_of ''createShape'' infinite_width) one_shape =
     (Inr \<lparr>tool_call_id = ''call_1'', output_text = ''Error: required params were not given''\<rparr>,
      perform (Emit ''updates'' (Text ''Process encountered errors, restarting...'')) one_shape) \<and>
   arguments (call_of ''editExistingShape'' other_id) = Some other_id \<and>
   list_all (\<lambda>sh. \<not> strict_eq (shape_id sh) (own_property other_id ''id'')) (shapes one_shape) \<and>
   dispatch sample_engine (call_of ''editExistingShape'' other_id) one_shape =
     (Inr \<lparr>tool_call_id = ''call_1'', output_text = ''Error: could not find shape''\<rparr>,
      perform (Emit ''updates'' (Text ''Process encountered errors, restarting...'')) one_shape) \<and>
   shapes (perform (Emit ''updates'' (Text ''Process encountered errors, restarting...'')) one_shape) =
     [shape_42]"
proof -
  have a1: "arguments (call_of ''createShape'' infinite_width) = Some infinite_width"
    and n1: "fn_name (call_of ''createShape'' infinite_width) = ''createShape''"
    and i1: "id_or_empty (call_of ''createShape'' infinite_width) = ''call_1''"
    by (simp_all add: call_of_def id_or_empty_def)
  have w: "\<not> Number_isFinite (optional_get infinite_width ''w'')"
    by (simp add: infinite_width_def optional_get_def nullish_def Number_isFinite_def)
  have a2: "arguments (call_of ''editExistingShape'' other_id) = Some other_id"
    and n2: "fn_name (call_of ''editExistingShape'' other_id) = ''editExistingShape''"
    and i2: "id_or_empty (call_of ''editExistingShape'' other_id) = ''call_1''"
    by (simp_all add: call_of_def id_or_empty_def)
  have nn: "\<not> nullish other_id" by (simp add: other_id_def nullish_def)
  have m: "\<forall>sh\<in>set (shapes one_shape). \<not> strict_eq (shape_id sh) (own_property other_id ''id'')"
    by (simp add: one_shape_def shape_42_def other_id_def)
  have ss: "shapes one_shape = [shape_42]" by (simp add: one_shape_def)
  from failed_dispatch_keeps_shapes [OF a1, of sample_engine one_shape] n1 w i1
  have c: "dispatch sample_engine (call_of ''createShape'' infinite_width) one_shape =
     (Inr \<lparr>tool_call_id = ''call_1'', output_text = ''Error: required params were not given''\<rparr>,
      perform (Emit ''updates'' (Text ''Process encountered errors, restarting...'')) one_shape)"
    by simp
  from failed_dispatch_keeps_shapes [OF a2, of sample_engine one_shape] n2 nn m i2
  have e: "dispatch sample_engine (call_of ''editExistingShape'' other_id) one_shape =
     (Inr \<lparr>tool_call_id = ''call_1'', output_text = ''Error: could not find shape''\<rparr>,
      perform (Emit ''updates'' (Text ''Process encountered errors, restarting...'')) one_shape)"
    by simp
  from a1 w c a2 m e ss show ?thesis
    by (simp add: list_all_iff)
qed

section \<open>The direct update of a shape\<close>




text \<open>The drag computed: \<^verbatim>\<open>w\<close> and \<^verbatim>\<open>h\<close> of shape 42 become \<^verbatim>\<open>undefined\<close>.\<close>

lemma drag_result:
  "on_update_shape drag one_shape =
     Inr (one_shape\<lparr>shapes := [shape_42\<lparr>shape_x := Num (Finite 5), shape_y := Num (Finite 7),
                                   shape_w := Undefined, shape_h := Undefined\<rparr>],
            effects := [BroadcastEmit ''update-shape''
              (OneShape (shape_42\<lparr>shape_x := Num (Finite 5), shape_y := Num (Finite 7),
                                   shape_w := Undefined, shape_h := Undefined\<rparr>))]\<rparr>)"
  by (simp add: on_update_shape_def find_shape_by_id_def drag_def one_shape_def shape_42_def
      nullish_def idle_def perform_def Let_def)


section \<open>The driver\<close>

lemma createShape_keeps_run:
  "createShape a s = Inr s' \<Longrightarrow> activeRun s' = activeRun s \<and> effects s' = effects s"
  by (auto simp: createShape_def Let_def split: if_splits)

lemma editExistingShape_keeps_run:
  "editExistingShape a s = Inr s' \<Longrightarrow> activeRun s' = activeRun s \<and> effects s' = effects s"
  by (auto simp: editExistingShape_def Let_def split: sum.splits option.splits)

lemma call_fn_keeps_run:
  "call_fn fn a s = Inr s' \<Longrightarrow> activeRun s' = activeRun s \<and> effects s' = effects s"
  by (cases fn) (auto simp: call_fn_def dest: createShape_keeps_run editExistingShape_keeps_run split: option.splits)

lemma dispatch_frame:
  assumes "dispatch E call s = (res, s')"
  shows "activeRun s' = activeRun s \<and> (\<exists>new. effects s' = effects s @ new \<and> list_all loop_effect new)"
proof (cases "arguments call")
  case None
  with assms show ?thesis by (simp add: dispatch_def)
next
  case (Some a)
  show ?thesis
  proof (cases "functions_get (fn_name call)")
    case None
    with Some assms show ?thesis by (auto simp: dispatch_def)
  next
    case fn: (Some fn)
    show ?thesis
    proof (cases "call_fn fn a s")
      case (Inl err)
      with Some fn assms show ?thesis by (auto simp: dispatch_def)
    next
      case (Inr s1)
      with Some fn assms have "s' = s1" by (auto simp: dispatch_def)
      with call_fn_keeps_run [OF Inr] show ?thesis by simp
    qed
  qed
qed

lemma dispatch_all_frame:
  "dispatch_all E calls s = (res, s') \<Longrightarrow>
   activeRun s' = activeRun s \<and> (\<exists>new. effects s' = effects s @ new \<and> list_all loop_effect new)"
proof (induction calls arbitrary: s res s')
  case Nil
  then show ?case by simp
next
  case (Cons call calls)
  obtain r1 s1 where d: "dispatch E call s = (r1, s1)" by (cases "dispatch E call s")
  from dispatch_frame [OF d] obtain new1 where
    f1: "activeRun s1 = activeRun s" "effects s1 = effects s @ new1" "list_all loop_effect new1"
    by blast
  show ?case
  proof (cases r1)
    case (Inl err)
    with d Cons.prems have "s' = s1" by simp
    with f1 show ?thesis by blast
  next
    case (Inr out)
    obtain r2 s2 where d2: "dispatch_all E calls s1 = (r2, s2)" by (cases "dispatch_all E calls s1")
    from Cons.IH [OF d2] obtain new2 where
      f2: "activeRun s2 = activeRun s1" "effects s2 = effects s1 @ new2" "list_all loop_effect new2"
      by blast
    from d Inr d2 Cons.prems have "s' = s2" by (auto split: sum.splits)
    with f1 f2 have "activeRun s' = activeRun s" "effects s' = effects s @ (new1 @ new2)"
      "list_all loop_effect (new1 @ new2)" by simp_all
    then show ?thesis by blast
  qed
qed

text \<open>The loop, one case at a time.\<close>

lemma poll_finished:
  "status r \<notin> set pendingStatus \<Longrightarrow>
   poll E rs p r s = (settle Fulfilled p, perform (Emit ''updates'' (Text [])) (s\<lparr>activeRun := None\<rparr>))"
  by (simp add: poll.simps)

lemma poll_waiting:
  "status r = ''in_progress'' \<or> status r = ''queued'' \<Longrightarrow> activeRun s = Some a \<Longrightarrow>
   poll E rs p r s =
     (let s1 = perform (RunsRetrieve (run_id a)) (perform (Sleep 1000)
                 (perform (Emit ''updates'' (Text ''Processing your request...'')) s))
      in case rs of
           [] \<Rightarrow> (p, s1)
         | Throws # rs' \<Rightarrow> catch_block ExternalServiceError p s1
         | Returns r' # rs' \<Rightarrow> poll E rs' p r' s1)"
  by (subst poll.simps) (auto simp: pendingStatus_def Let_def)

lemma poll_acting:
  "status r = ''requires_action'' \<Longrightarrow> dispatch_all E (toolCalls_of r) s = (Inr outs, s1) \<Longrightarrow>
   activeRun s = Some a \<Longrightarrow>
   poll E rs p r s =
     (let s2 = perform (SubmitToolOutputs (run_id a) outs) s1
      in case rs of
           [] \<Rightarrow> (p, s2)
         | Throws # rs' \<Rightarrow> catch_block ExternalServiceError p s2
         | Returns r' # rs' \<Rightarrow> poll E rs' p r' s2)"
  using dispatch_all_frame [of E "toolCalls_of r" s "Inr outs" s1]
  by (subst poll.simps) (auto simp: pendingStatus_def Let_def)

lemma poll_acting_throws:
  "status r = ''requires_action'' \<Longrightarrow> dispatch_all E (toolCalls_of r) s = (Inl err, s1) \<Longrightarrow>
   poll E rs p r s = catch_block err p s1"
  by (subst poll.simps) (auto simp: pendingStatus_def)

lemma pending_cases:
  "status r \<in> set pendingStatus \<Longrightarrow>
   status r = ''in_progress'' \<or> status r = ''queued'' \<or> status r = ''requires_action''"
  by (auto simp: pendingStatus_def)

lemma failed_not_pending:
  "status r \<in> set failedStatus \<Longrightarrow> status r \<notin> set pendingStatus"
  by (auto simp: failedStatus_def pendingStatus_def)

lemma poll_invariant:
  assumes "activeRun s = Some a" and "poll E rs None r s = (p', s')"
  shows "(\<exists>new. effects s' = effects s @ new \<and> list_all loop_effect new \<and>
            (p' = Some Fulfilled \<longrightarrow> (\<exists>before. new = before @ [Emit ''updates'' (Text [])]))) \<and>
         (p' = Some Fulfilled \<longrightarrow> activeRun s' = None) \<and>
         (p' \<noteq> Some Fulfilled \<longrightarrow> activeRun s' = Some a \<and> (p' = None \<or> p' = Some (Rejected None)))"
  using assms
proof (induction rs arbitrary: r s p' s')
  case Nil
  show ?case
  proof (cases "status r \<in> set pendingStatus")
    case False
    with Nil.prems show ?thesis
      by (auto simp: poll_finished settle_def)
  next
    case True
    from pending_cases [OF True] show ?thesis
    proof (elim disjE)
      assume "status r = ''in_progress''"
      with Nil.prems show ?thesis by (auto simp: poll_waiting Let_def)
    next
      assume "status r = ''queued''"
      with Nil.prems show ?thesis by (auto simp: poll_waiting Let_def)
    next
      assume st: "status r = ''requires_action''"
      obtain res s1 where d: "dispatch_all E (toolCalls_of r) s = (res, s1)"
        by (cases "dispatch_all E (toolCalls_of r) s")
      from dispatch_all_frame [OF d] Nil.prems(1) obtain new1 where
        f: "activeRun s1 = Some a" "effects s1 = effects s @ new1" "list_all loop_effect new1"
        by auto
      show ?thesis
      proof (cases res)
        case (Inl err)
        with st d Nil.prems f show ?thesis
          by (auto simp: poll_acting_throws catch_block_def settle_def)
      next
        case (Inr outs)
        with st d Nil.prems f show ?thesis
          by (auto simp: poll_acting Let_def)
      qed
    qed
  qed
next
  case (Cons reply rs)
  have continue: ?case
    if run: "(case reply # rs of
                [] \<Rightarrow> (None, s2)
              | Throws # rs' \<Rightarrow> catch_block ExternalServiceError None s2
              | Returns r' # rs' \<Rightarrow> poll E rs' None r' s2) = (p', s')"
      and f: "activeRun s2 = Some a" "effects s2 = effects s @ new2" "list_all loop_effect new2"
    for s2 new2
  proof (cases reply)
    case Throws
    with run f show ?thesis
      by (auto simp: catch_block_def settle_def)
  next
    case (Returns r')
    with run have "poll E rs None r' s2 = (p', s')" by simp
    from Cons.IH [OF f(1) this] obtain new3 where
      n: "effects s' = effects s2 @ new3" "list_all loop_effect new3"
        "p' = Some Fulfilled \<longrightarrow> (\<exists>before. new3 = before @ [Emit ''updates'' (Text [])])"
      and a: "p' = Some Fulfilled \<longrightarrow> activeRun s' = None"
        "p' \<noteq> Some Fulfilled \<longrightarrow> activeRun s' = Some a \<and> (p' = None \<or> p' = Some (Rejected None))"
      by blast
    from n f have "effects s' = effects s @ (new2 @ new3)" "list_all loop_effect (new2 @ new3)"
      by simp_all
    moreover from n(3) have
      "p' = Some Fulfilled \<longrightarrow> (\<exists>before. new2 @ new3 = before @ [Emit ''updates'' (Text [])])"
      by auto
    ultimately show ?thesis using a by blast
  qed
  show ?case
  proof (cases "status r \<in> set pendingStatus")
    case False
    with Cons.prems show ?thesis
      by (auto simp: poll_finished settle_def)
  next
    case True
    let ?s1 = "perform (RunsRetrieve (run_id a)) (perform (Sleep 1000)
                 (perform (Emit ''updates'' (Text ''Processing your request...'')) s))"
    have wait: ?thesis if st: "status r = ''in_progress'' \<or> status r = ''queued''"
    proof -
      from st Cons.prems have "(case reply # rs of
                [] \<Rightarrow> (None, ?s1)
              | Throws # rs' \<Rightarrow> catch_block ExternalServiceError None ?s1
              | Returns r' # rs' \<Rightarrow> poll E rs' None r' ?s1) = (p', s')"
        by (simp add: poll_waiting Let_def)
      moreover have "activeRun ?s1 = Some a" using Cons.prems(1) by simp
      moreover have "effects ?s1 = effects s @
        [Emit ''updates'' (Text ''Processing your request...''), Sleep 1000, RunsRetrieve (run_id a)]"
        by simp
      ultimately show ?thesis by (rule continue) simp
    qed
    from pending_cases [OF True] show ?thesis
    proof (elim disjE)
      assume "status r = ''in_progress''"
      then show ?thesis using wait by blast
    next
      assume "status r = ''queued''"
      then show ?thesis using wait by blast
    next
      assume st: "status r = ''requires_action''"
      obtain res s1 where d: "dispatch_all E (toolCalls_of r) s = (res, s1)"
        by (cases "dispatch_all E (toolCalls_of r) s")
      from dispatch_all_frame [OF d] Cons.prems(1) obtain new1 where
        f: "activeRun s1 = Some a" "effects s1 = effects s @ new1" "list_all loop_effect new1"
        by auto
      show ?thesis
      proof (cases res)
        case (Inl err)
        with st d Cons.prems f show ?thesis
          by (auto simp: poll_acting_throws catch_block_def settle_def)
      next
        case (Inr outs)
        let ?s2 = "perform (SubmitToolOutputs (run_id a) outs) s1"
        from st d Inr Cons.prems have "(case reply # rs of
                [] \<Rightarrow> (None, ?s2)
              | Throws # rs' \<Rightarrow> catch_block ExternalServiceError None ?s2
              | Returns r' # rs' \<Rightarrow> poll E rs' None r' ?s2) = (p', s')"
          by (simp add: poll_acting Let_def)
        moreover have "activeRun ?s2 = Some a" using f(1) by simp
        moreover have "effects ?s2 = effects s @ (new1 @ [SubmitToolOutputs (run_id a) outs])"
          using f(2) by simp
        ultimately show ?thesis by (rule continue) (simp add: f(3))
      qed
    qed
  qed
qed

lemma loop_effects_start_no_run:
  "list_all loop_effect es \<Longrightarrow> runs_started es = 0"
  by (induction es) (auto simp: runs_started_def)

lemma loop_effect_quiet:
  "loop_effect e \<Longrightarrow> \<not> is_broadcast e \<and> \<not> is_snapshot e"
  by (cases e) auto

lemma handleUserPrompt_invariant:
  assumes "handleUserPrompt E svc message s = (p', s')"
  shows "\<exists>new. effects s' = effects s @ MessagesCreate (addMessageContext E (shapes s) message) # new \<and>
           list_all (\<lambda>e. loop_effect e \<or> e = RunsCreate) new \<and> runs_started new \<le> 1 \<and>
           (messages_create svc \<noteq> Throws \<longrightarrow> (\<exists>rest. new = RunsCreate # rest)) \<and>
           (p' = Some Fulfilled \<longrightarrow>
              activeRun s' = None \<and> (\<exists>before. new = before @ [Emit ''updates'' (Text [])]))"
proof (cases "messages_create svc")
  case Throws
  with assms show ?thesis
    by (auto simp: handleUserPrompt_def runs_started_def)
next
  case (Returns u)
  note m = this
  show ?thesis
  proof (cases "runs_create svc")
    case Throws
    with m assms show ?thesis
      by (auto simp: handleUserPrompt_def runs_started_def)
  next
    case (Returns created)
    note c = this
    let ?s3 = "perform (RunsRetrieve (run_id created))
                 ((perform RunsCreate (perform (MessagesCreate (addMessageContext E (shapes s) message)) s))
                    \<lparr>activeRun := Some created\<rparr>)"
    have e3: "effects ?s3 = effects s @
        [MessagesCreate (addMessageContext E (shapes s) message), RunsCreate, RunsRetrieve (run_id created)]"
      by (simp add: perform_def)
    have a3: "activeRun ?s3 = Some created" by simp
    show ?thesis
    proof (cases "run_replies svc")
      case Nil
      with m c assms show ?thesis
        by (auto simp: handleUserPrompt_def runs_started_def perform_def)
    next
      case (Cons reply rs)
      show ?thesis
      proof (cases reply)
        case Throws
        with Cons m c assms show ?thesis
          by (auto simp: handleUserPrompt_def runs_started_def perform_def catch_block_def settle_def)
      next
        case (Returns runResult)
        show ?thesis
        proof (cases "status runResult \<in> set failedStatus")
          case True
          with Returns Cons m c assms show ?thesis
            by (auto simp: handleUserPrompt_def runs_started_def perform_def settle_def
                poll_finished [OF failed_not_pending])
        next
          case False
          with Returns Cons m c assms have "poll E rs None runResult ?s3 = (p', s')"
            by (simp add: handleUserPrompt_def Let_def)
          from poll_invariant [OF a3 this] obtain new where
            n: "effects s' = effects ?s3 @ new" "list_all loop_effect new"
              "p' = Some Fulfilled \<longrightarrow> (\<exists>before. new = before @ [Emit ''updates'' (Text [])])"
            and a: "p' = Some Fulfilled \<longrightarrow> activeRun s' = None"
            by blast
          let ?new = "RunsCreate # RunsRetrieve (run_id created) # new"
          from n(1) e3 have "effects s' =
              effects s @ MessagesCreate (addMessageContext E (shapes s) message) # ?new"
            by simp
          moreover from n(2) have "list_all (\<lambda>e. loop_effect e \<or> e = RunsCreate) ?new"
            by (auto simp: list_all_iff)
          moreover from loop_effects_start_no_run [OF n(2)] have "runs_started ?new \<le> 1"
            by (simp add: runs_started_def)
          moreover from n(3) have
            "p' = Some Fulfilled \<longrightarrow> (\<exists>before. ?new = before @ [Emit ''updates'' (Text [])])"
            by auto
          moreover have "\<exists>rest. ?new = RunsCreate # rest" by simp
          ultimately show ?thesis using a by blast
        qed
      qed
    qed
  qed
qed

lemmas driver_defs = handleUserPrompt_def service_with_def run_with_def failedStatus_def
  pendingStatus_def settle_def catch_block_def perform_def toolCalls_of_def poll.simps

lemmas listener_defs = on_handle_user_prompt_def driver_defs

section \<open>The claims on the gateway and the driver\<close>

lemmas step_defs = handle_events_def deliver_def arrive_def resume_def perform_def

text \<open>
  Claim C1, at two instructions that arrive one right after the other. The claim asks that an
  instruction never start a second run beside one that is under way. The listener tests
  \<^verbatim>\<open>activeRun\<close> when the event arrives (line 142) and \<^verbatim>\<open>handleUserPrompt\<close> assigns it two
  waits later (line 34): the second instruction arrives while the first waits for
  \<^verbatim>\<open>messages.create\<close>, finds the handle null and enters the driver too. Its run is requested
  when the handle already holds the first run, and the second assignment replaces the first:
  two runs are started.
\<close>

theorem two_close_instructions_start_two_runs:
  "handle_events E
     [Instruction draw_request, Instruction circle_request,
      Wakeup 0 Completes, Wakeup 0 (Gives run_1),
      Wakeup 1 Completes, Wakeup 1 (Gives run_2)]
     (idle, []) =
   (idle\<lparr>activeRun := Some run_2,
      effects :=
        [MessagesCreate (addMessageContext E [] draw_request),
         MessagesCreate (addMessageContext E [] circle_request),
         RunsCreate, RunsRetrieve ''run_1'', RunsCreate, RunsRetrieve ''run_2'']\<rparr>,
    [Suspended Awaits_first_retrieve, Suspended Awaits_first_retrieve]) \<and>
   runs_started
     (effects (fst (handle_events E
        [Instruction draw_request, Instruction circle_request,
         Wakeup 0 Completes, Wakeup 0 (Gives run_1),
         Wakeup 1 Completes, Wakeup 1 (Gives run_2)]
        (idle, [])))) = 2"
  by (simp add: step_defs idle_def run_1_def run_2_def run_with_def runs_started_def)

text \<open>
  The state in between: the handle holds the first run while the second listener is past the
  test. An instruction that arrives only now is held back.
\<close>

lemma second_run_requested_with_handle_set:
  "handle_events E
     [Instruction draw_request, Instruction circle_request, Wakeup 0 Completes, Wakeup 0 (Gives run_1)]
     (idle, []) =
   (idle\<lparr>activeRun := Some run_1,
      effects :=
        [MessagesCreate (addMessageContext E [] draw_request),
         MessagesCreate (addMessageContext E [] circle_request),
         RunsCreate, RunsRetrieve ''run_1'']\<rparr>,
    [Suspended Awaits_first_retrieve, Suspended Awaits_messages_create])"
  by (simp add: step_defs idle_def run_1_def run_with_def)

lemma late_instruction_is_gated:
  "handle_events E
     [Instruction draw_request, Wakeup 0 Completes, Wakeup 0 (Gives run_1), Instruction circle_request]
     (idle, []) =
   (idle\<lparr>activeRun := Some run_1,
      effects :=
        [MessagesCreate (addMessageContext E [] draw_request), RunsCreate, RunsRetrieve ''run_1'',
         Emit ''snapshot'' (Snapshot [])]\<rparr>,
    [Suspended Awaits_first_retrieve, Finished Returned])"
  by (simp add: step_defs idle_def run_1_def run_with_def)

text \<open>
  With no event in between, a listener taken one wait at a time ends as the listener taken as
  a whole, in the same state: \<open>on_handle_user_prompt\<close> is the listener that nothing interrupts.
\<close>

lemma drive_finished [simp]: "drive E rs (Finished e, s) = (Finished e, s)"
  by (cases rs) (simp_all add: after_sleep_def)

lemma listener_continues_end:
  "apfst end_of (listener_continues p s) = listener_end_of (p, s)"
  by (simp add: listener_continues_def listener_end_of_def split: option.split settlement.split)

lemma listener_continues_finished:
  "\<exists>e s'. listener_continues p s = (Finished e, s')"
  by (simp add: listener_continues_def split: option.split settlement.split)

lemma drive_listener_continues [simp]:
  "drive E rs (listener_continues p s) = listener_continues p s"
  using listener_continues_finished [of p s] by auto

lemma drive_poll:
  assumes "activeRun s = Some a"
  shows "apfst end_of (drive E rs (loop_from E None r s)) = listener_end_of (poll E rs None r s)"
  using assms
proof (induction rs arbitrary: r s)
  case Nil
  show ?case
  proof (cases "status r \<in> set pendingStatus")
    case False
    then show ?thesis
      by (simp add: loop_from_def poll_finished after_sleep_def listener_continues_def settle_def
          listener_end_of_def)
  next
    case True
    have wait: ?thesis if st: "status r = ''in_progress'' \<or> status r = ''queued''"
      using st True Nil.prems
      by (auto simp: loop_from_def poll_waiting Let_def after_sleep_def resume_def listener_end_of_def)
    from pending_cases [OF True] show ?thesis
    proof (elim disjE)
      assume "status r = ''in_progress''" then show ?thesis using wait by blast
    next
      assume "status r = ''queued''" then show ?thesis using wait by blast
    next
      assume st: "status r = ''requires_action''"
      obtain res s1 where d: "dispatch_all E (toolCalls_of r) s = (res, s1)"
        by (cases "dispatch_all E (toolCalls_of r) s")
      from dispatch_all_frame [OF d] Nil.prems have a1: "activeRun s1 = Some a" by simp
      show ?thesis
      proof (cases res)
        case (Inl err)
        with st True d show ?thesis
          by (simp add: loop_from_def poll_acting_throws caught_def catch_block_def
              listener_continues_def settle_def listener_end_of_def after_sleep_def)
      next
        case (Inr outs)
        with st True d a1 Nil.prems show ?thesis
          by (simp add: loop_from_def poll_acting [OF st _ Nil.prems] Let_def after_sleep_def
              listener_end_of_def)
      qed
    qed
  qed
next
  case (Cons reply rs)
  have continue: "apfst end_of (drive E (reply # rs) (Suspended point, s2)) =
      listener_end_of (case reply # rs of
                [] \<Rightarrow> (None, s2)
              | Throws # rs' \<Rightarrow> catch_block ExternalServiceError None s2
              | Returns r' # rs' \<Rightarrow> poll E rs' None r' s2)"
    if a2: "activeRun s2 = Some a" and pt: "point = Awaits_retrieve \<or> point = Awaits_submit"
    for s2 point
  proof (cases reply)
    case Throws
    with pt show ?thesis
      by (auto simp: after_sleep_def resume_def wake_of_def caught_def catch_block_def
          listener_continues_def settle_def listener_end_of_def)
  next
    case (Returns r')
    from Cons.IH [OF a2, of r'] Returns pt show ?thesis
      by (auto simp: after_sleep_def resume_def wake_of_def)
  qed
  show ?case
  proof (cases "status r \<in> set pendingStatus")
    case False
    then show ?thesis
      by (simp add: loop_from_def poll_finished listener_continues_def settle_def
          listener_end_of_def del: drive.simps)
  next
    case True
    have wait: ?thesis if st: "status r = ''in_progress'' \<or> status r = ''queued''"
    proof -
      let ?s1 = "perform (Sleep 1000) (perform (Emit ''updates'' (Text ''Processing your request...'')) s)"
      let ?s2 = "perform (RunsRetrieve (run_id a)) ?s1"
      have a1: "activeRun ?s1 = Some a" and a2: "activeRun ?s2 = Some a"
        using Cons.prems by simp_all
      have "drive E (reply # rs) (loop_from E None r s) = drive E (reply # rs) (Suspended Awaits_retrieve, ?s2)"
        using st True a1 by (auto simp: loop_from_def after_sleep_def resume_def)
      with continue [OF a2, of Awaits_retrieve] st Cons.prems show ?thesis
        by (simp add: poll_waiting Let_def del: drive.simps)
    qed
    from pending_cases [OF True] show ?thesis
    proof (elim disjE)
      assume "status r = ''in_progress''" then show ?thesis using wait by blast
    next
      assume "status r = ''queued''" then show ?thesis using wait by blast
    next
      assume st: "status r = ''requires_action''"
      obtain res s1 where d: "dispatch_all E (toolCalls_of r) s = (res, s1)"
        by (cases "dispatch_all E (toolCalls_of r) s")
      from dispatch_all_frame [OF d] Cons.prems have a1: "activeRun s1 = Some a" by simp
      show ?thesis
      proof (cases res)
        case (Inl err)
        with st True d show ?thesis
          by (simp add: loop_from_def poll_acting_throws caught_def catch_block_def
              listener_continues_def settle_def listener_end_of_def del: drive.simps)
      next
        case (Inr outs)
        let ?s2 = "perform (SubmitToolOutputs (run_id a) outs) s1"
        have a2: "activeRun ?s2 = Some a" using a1 by simp
        from Inr d have d': "dispatch_all E (toolCalls_of r) s = (Inr outs, s1)" by simp
        have "drive E (reply # rs) (loop_from E None r s) = drive E (reply # rs) (Suspended Awaits_submit, ?s2)"
          using st True d' a1 by (simp add: loop_from_def del: drive.simps)
        with continue [OF a2, of Awaits_submit] show ?thesis
          by (simp add: poll_acting [OF st d' Cons.prems] Let_def del: drive.simps)
      qed
    qed
  qed
qed

theorem alone_is_the_listener:
  "apfst end_of (alone E svc message s) = on_handle_user_prompt E svc message s"
proof (cases "activeRun s")
  case (Some a)
  then show ?thesis
    by (simp add: alone_def arrive_def on_handle_user_prompt_def)
next
  case None
  have l: "on_handle_user_prompt E svc message s = listener_end_of (handleUserPrompt E svc message s)"
    using None
    by (simp add: on_handle_user_prompt_def listener_end_of_def split: prod.split option.split settlement.split)
  let ?s1 = "perform (MessagesCreate (addMessageContext E (shapes s) message)) s"
  show ?thesis
  proof (cases "messages_create svc")
    case Throws
    with None show ?thesis
      by (simp add: l alone_def arrive_def resume_def handleUserPrompt_def listener_end_of_def)
  next
    case (Returns u)
    note m = this
    let ?s2 = "perform RunsCreate ?s1"
    show ?thesis
    proof (cases "runs_create svc")
      case Throws
      with None m show ?thesis
        by (simp add: l alone_def arrive_def resume_def handleUserPrompt_def listener_end_of_def
            wake_of_def)
    next
      case (Returns created)
      note c = this
      let ?s3 = "perform (RunsRetrieve (run_id created)) (?s2\<lparr>activeRun := Some created\<rparr>)"
      have a3: "activeRun ?s3 = Some created" by simp
      have al: "alone E svc message s = drive E (run_replies svc) (Suspended Awaits_first_retrieve, ?s3)"
        using None m c by (simp add: alone_def arrive_def resume_def wake_of_def)
      show ?thesis
      proof (cases "run_replies svc")
        case Nil
        with None m c show ?thesis
          by (simp add: l al handleUserPrompt_def listener_end_of_def after_sleep_def)
      next
        case (Cons reply rs)
        show ?thesis
        proof (cases reply)
          case Throws
          with Cons None m c show ?thesis
            by (simp add: l al handleUserPrompt_def listener_end_of_def after_sleep_def resume_def
                wake_of_def caught_def catch_block_def listener_continues_def settle_def)
        next
          case (Returns runResult)
          show ?thesis
          proof (cases "status runResult \<in> set failedStatus")
            case True
            with Returns Cons None m c show ?thesis
              by (simp add: l al handleUserPrompt_def listener_end_of_def after_sleep_def resume_def
                  wake_of_def loop_from_def listener_continues_def settle_def
                  poll_finished [OF failed_not_pending] failed_not_pending)
          next
            case False
            with Returns Cons None m c have
              h: "handleUserPrompt E svc message s = poll E rs None runResult ?s3"
              by (simp add: handleUserPrompt_def Let_def)
            from False Returns Cons have
              "drive E (run_replies svc) (Suspended Awaits_first_retrieve, ?s3) =
                 drive E rs (loop_from E None runResult ?s3)"
              by (simp add: after_sleep_def resume_def wake_of_def)
            with drive_poll [OF a3, of E rs runResult] show ?thesis
              by (simp add: l al h)
          qed
        qed
      qed
    qed
  qed
qed

text \<open>
  Claim C2, at a run that is \<^verbatim>\<open>queued\<close> at the first fetch and \<^verbatim>\<open>failed\<close> at the second.
  The claim asks for a notification of the failing status and a failure signal at any fetch.
  The program tests for a failed status once, before the loop; a status that fails later only
  ends the loop: the handle is cleared, but the caller is sent the empty message and the promise
  is fulfilled.
\<close>

theorem late_failed_status_is_reported_as_success:
  "handleUserPrompt E
     (service_with [Returns (run_with ''queued'' None), Returns (run_with ''failed'' None)]) message s =
   (Some Fulfilled,
    s\<lparr>activeRun := None,
      effects := effects s @
        [MessagesCreate (addMessageContext E (shapes s) message), RunsCreate, RunsRetrieve ''run_1'',
         Emit ''updates'' (Text ''Processing your request...''), Sleep 1000, RunsRetrieve ''run_1'',
         Emit ''updates'' (Text [])]\<rparr>)"
  by (simp add: driver_defs)

text \<open>
  The same status at the first fetch is reported and rejected; the program then goes on (there
  is no \<^verbatim>\<open>return\<close>) and sends the empty message as well.
\<close>

lemma first_failed_status_is_reported:
  "handleUserPrompt E (service_with [Returns (run_with ''failed'' None)]) message s =
   (Some (Rejected (Some ''run result failed with status: failed'')),
    s\<lparr>activeRun := None,
      effects := effects s @
        [MessagesCreate (addMessageContext E (shapes s) message), RunsCreate, RunsRetrieve ''run_1'',
         Emit ''updates'' (Text ''Process failed with status: failed''),
         Emit ''updates'' (Text [])]\<rparr>)"
  by (simp add: driver_defs)

text \<open>
  Claim C3, at a first fetch that throws. The claim asks that the handle be cleared. The
  \<^verbatim>\<open>catch\<close> block logs and rejects and assigns nothing: \<^verbatim>\<open>activeRun\<close> stays the run that
  was created.
\<close>

theorem service_error_leaves_activeRun_set:
  "handleUserPrompt E (service_with [Throws]) message s =
   (Some (Rejected None),
    s\<lparr>activeRun := Some (run_with ''queued'' None),
      effects := effects s @
        [MessagesCreate (addMessageContext E (shapes s) message), RunsCreate, RunsRetrieve ''run_1'',
         ConsoleError ''Error retrieving the run:'' (Some ExternalServiceError)]\<rparr>)"
  by (simp add: driver_defs)

text \<open>
  Claim C4, at the tool name \<^verbatim>\<open>toString\<close>. The claim asks that a name with no handler be
  answered with the text that the function could not be found. \<^verbatim>\<open>functions['toString']\<close> is
  the function \<^verbatim>\<open>functions\<close> inherits from \<^verbatim>\<open>Object.prototype\<close>; it is truthy, the call
  returns, and the output text reports success.
\<close>

theorem inherited_name_reports_success:
  "dispatch E (call_of ''toString'' (Obj [])) s =
     (Inr \<lparr>tool_call_id = ''call_1'',
           output_text = ''Success. New shapes array: '' @ JSON_stringify E (shapes s)\<rparr>, s)"
  by (simp add: dispatch_def call_of_def functions_get_def Object_prototype_names_def call_fn_def
      call_inherited_def id_or_empty_def)

text \<open>
  A name \<^verbatim>\<open>functions\<close> neither has nor inherits is answered as the claim says, and a call
  whose arguments parsed always yields an output.
\<close>

lemma unknown_name_reports_not_found:
  "functions_get (fn_name call) = None \<Longrightarrow> arguments call = Some a \<Longrightarrow>
   dispatch E call s =
     (Inr \<lparr>tool_call_id = id_or_empty call, output_text = ''error: couldnt find function''\<rparr>,
      perform (ConsoleError ''function name did not match accepted function arguments'' None)
        (perform (Emit ''updates'' (Text ''Process encountered errors, restarting...'')) s))"
  by (simp add: dispatch_def)

lemma dispatch_returns:
  "arguments call = Some a \<Longrightarrow> \<exists>out s'. dispatch E call s = (Inr out, s')"
  by (simp add: dispatch_def split: option.split sum.split)

text \<open>
  Claim C8, at a run whose first batch holds one call with an argument text that is not JSON.
  The claim asks for one submission per batch, with an output for every call. \<^verbatim>\<open>JSON.parse\<close>
  stands outside the \<^verbatim>\<open>try\<close> that turns a handler's failure into an output: its
  \<^verbatim>\<open>SyntaxError\<close> ends the map and reaches the outer \<^verbatim>\<open>catch\<close>; nothing is submitted for the
  batch, the promise is rejected and \<^verbatim>\<open>activeRun\<close> stays set.
\<close>

theorem malformed_arguments_are_never_answered:
  "handleUserPrompt E
     (service_with [Returns (run_with ''requires_action'' (Some [malformed_call]))]) message s =
   (Some (Rejected None),
    s\<lparr>activeRun := Some (run_with ''queued'' None),
      effects := effects s @
        [MessagesCreate (addMessageContext E (shapes s) message), RunsCreate, RunsRetrieve ''run_1'',
         ConsoleError ''Error retrieving the run:'' (Some SyntaxError)]\<rparr>)"
  by (simp add: driver_defs malformed_call_def dispatch_def)

text \<open>
  Claim C9, as the program has it. When the driver signals completion for an instruction that
  was handled (the handle was null), the last two things the listener does are the empty
  \<^verbatim>\<open>updates\<close> message and then a snapshot of the shapes as they now are, both sent to the
  caller's socket; nothing before them is a snapshot, and nothing is sent to the other clients.
\<close>

theorem fulfilled_prompt_ends_with_snapshot:
  assumes "activeRun s = None" and "fst (handleUserPrompt E svc message s) = Some Fulfilled"
  shows "\<exists>s' before.
           handleUserPrompt E svc message s = (Some Fulfilled, s') \<and>
           on_handle_user_prompt E svc message s =
             (Returned, perform (Emit ''snapshot'' (Snapshot (shapes s'))) s') \<and>
           effects (snd (on_handle_user_prompt E svc message s)) =
             effects s @ before @ [Emit ''updates'' (Text []), Emit ''snapshot'' (Snapshot (shapes s'))] \<and>
           list_all (\<lambda>e. \<not> is_broadcast e \<and> \<not> is_snapshot e) before"
proof -
  obtain s' where h: "handleUserPrompt E svc message s = (Some Fulfilled, s')"
    using assms(2) by (cases "handleUserPrompt E svc message s") auto
  from handleUserPrompt_invariant [OF h] obtain new before where
    n: "effects s' = effects s @ MessagesCreate (addMessageContext E (shapes s) message) # new"
      "list_all (\<lambda>e. loop_effect e \<or> e = RunsCreate) new"
      "new = before @ [Emit ''updates'' (Text [])]"
    by blast
  let ?before = "MessagesCreate (addMessageContext E (shapes s) message) # before"
  have l: "on_handle_user_prompt E svc message s =
             (Returned, perform (Emit ''snapshot'' (Snapshot (shapes s'))) s')"
    using assms(1) h by (simp add: on_handle_user_prompt_def)
  have e: "effects (snd (on_handle_user_prompt E svc message s)) =
      effects s @ ?before @ [Emit ''updates'' (Text []), Emit ''snapshot'' (Snapshot (shapes s'))]"
    using l n(1,3) by simp
  have q: "list_all (\<lambda>e. \<not> is_broadcast e \<and> \<not> is_snapshot e) ?before"
    using n(2,3) loop_effect_quiet by (auto simp: list_all_iff)
  show ?thesis
    apply (rule exI [of _ s'])
    apply (rule exI [of _ ?before])
    using h l e q
    apply simp
    done
qed

theorem fulfilled_prompt_ends_with_snapshot_witness:
  "activeRun idle = None \<and>
   fst (handleUserPrompt sample_engine drawing draw_request idle) = Some Fulfilled \<and>
   (\<exists>s' before.
      handleUserPrompt sample_engine drawing draw_request idle = (Some Fulfilled, s') \<and>
      on_handle_user_prompt sample_engine drawing draw_request idle =
        (Returned, perform (Emit ''snapshot'' (Snapshot (shapes s'))) s') \<and>
      effects (snd (on_handle_user_prompt sample_engine drawing draw_request idle)) =
        effects idle @ before @ [Emit ''updates'' (Text []), Emit ''snapshot'' (Snapshot (shapes s'))] \<and>
      list_all (\<lambda>e. \<not> is_broadcast e \<and> \<not> is_snapshot e) before)"
proof -
  have i: "activeRun idle = None" by (simp add: idle_def)
  have f: "fst (handleUserPrompt sample_engine drawing draw_request idle) = Some Fulfilled"
    by (simp add: driver_defs drawing_def idle_def call_of_def dispatch_def call_fn_def
        createShape_def red_square_def optional_get_def nullish_def Number_isFinite_def
        id_or_empty_def)
  from fulfilled_prompt_ends_with_snapshot [OF i f] i f show ?thesis by blast
qed

text \<open>
  Claim C9 as stated fails twice. When the first fetch reports \<^verbatim>\<open>failed\<close> the promise is
  rejected, the listener's \<^verbatim>\<open>await\<close> throws and no snapshot is sent at all (and the failure
  message is followed by the empty one). When the run completes the snapshot goes to the
  caller's socket, not to the other clients.
\<close>

theorem snapshot_after_every_prompt_counterexample:
  "on_handle_user_prompt sample_engine failing draw_request idle =
     (Threw,
      idle\<lparr>effects :=
        [MessagesCreate (addMessageContext sample_engine [] draw_request), RunsCreate,
         RunsRetrieve ''run_1'', Emit ''updates'' (Text ''Process failed with status: failed''),
         Emit ''updates'' (Text [])]\<rparr>) \<and>
   filter is_snapshot (effects (snd (on_handle_user_prompt sample_engine failing draw_request idle))) = [] \<and>
   on_handle_user_prompt sample_engine completing draw_request idle =
     (Returned,
      idle\<lparr>effects :=
        [MessagesCreate (addMessageContext sample_engine [] draw_request), RunsCreate,
         RunsRetrieve ''run_1'', Emit ''updates'' (Text []), Emit ''snapshot'' (Snapshot [])]\<rparr>) \<and>
   filter is_broadcast (effects (snd (on_handle_user_prompt sample_engine completing draw_request idle))) = []"
  by (simp add: listener_defs failing_def completing_def idle_def)

text \<open>
  The first scenario of the specification, from the instruction to the snapshot: the red
  square is created with the \<^verbatim>\<open>id\<close> 50000 that \<^verbatim>\<open>Math.random() = 1/2\<close> gives, the one
  output is submitted, and the snapshot holds the shape.
\<close>

lemma drawing_result:
  "on_handle_user_prompt sample_engine drawing draw_request idle =
     (Returned,
      \<lparr>shapes = [\<lparr>shape_x = Num (Finite 0), shape_y = Num (Finite 0), shape_w = Num (Finite 50),
                   shape_h = Num (Finite 50), shape_color = Str ''hsl(0,100%,50%)'',
                   shape_id = Num (Finite 50000)\<rparr>],
       activeRun = None, math_random = (\<lambda>n. 1 / 2),
       effects =
         [MessagesCreate (addMessageContext sample_engine [] draw_request), RunsCreate,
          RunsRetrieve ''run_1'',
          SubmitToolOutputs ''run_1''
            [\<lparr>tool_call_id = ''call_1'', output_text = ''Success. New shapes array: <shapes>''\<rparr>],
          Emit ''updates'' (Text []),
          Emit ''snapshot'' (Snapshot
            [\<lparr>shape_x = Num (Finite 0), shape_y = Num (Finite 0), shape_w = Num (Finite 50),
              shape_h = Num (Finite 50), shape_color = Str ''hsl(0,100%,50%)'',
              shape_id = Num (Finite 50000)\<rparr>])]\<rparr>)"
  by (simp add: listener_defs drawing_def idle_def call_of_def dispatch_def call_fn_def
      createShape_def red_square_def optional_get_def nullish_def nullish_coalesce_def
      Number_isFinite_def id_or_empty_def sample_engine_def to_double_50000 Math_floor_def)

section \<open>Further properties of the driver\<close>

lemma submissions_append: "submissions (es @ fs) = submissions es @ submissions fs"
  by (induction es rule: submissions.induct) auto

lemma dispatch_parsed:
  assumes "arguments call \<noteq> None"
  shows "\<exists>out s'. dispatch E call s = (Inr out, s') \<and> tool_call_id out = id_or_empty call \<and>
           submissions (effects s') = submissions (effects s)"
proof -
  from assms obtain a where a: "arguments call = Some a" by auto
  show ?thesis
  proof (cases "functions_get (fn_name call)")
    case None
    with a show ?thesis by (simp add: dispatch_def submissions_append)
  next
    case (Some fn)
    show ?thesis
    proof (cases "call_fn fn a s")
      case (Inl err)
      with a Some show ?thesis by (simp add: dispatch_def submissions_append)
    next
      case (Inr s1)
      with a Some call_fn_keeps_run [OF Inr] show ?thesis by (simp add: dispatch_def)
    qed
  qed
qed

lemma dispatch_all_parsed:
  "list_all (\<lambda>call. arguments call \<noteq> None) calls \<Longrightarrow>
   \<exists>outs s'. dispatch_all E calls s = (Inr outs, s') \<and>
      map tool_call_id outs = map id_or_empty calls \<and>
      submissions (effects s') = submissions (effects s)"
proof (induction calls arbitrary: s)
  case Nil
  then show ?case by simp
next
  case (Cons call calls)
  from Cons.prems have c: "arguments call \<noteq> None"
    and cs: "list_all (\<lambda>call. arguments call \<noteq> None) calls" by simp_all
  from dispatch_parsed [OF c, of E s] obtain out s1 where
    d: "dispatch E call s = (Inr out, s1)" "tool_call_id out = id_or_empty call"
      "submissions (effects s1) = submissions (effects s)" by blast
  from Cons.IH [OF cs, of s1] obtain outs s2 where
    d2: "dispatch_all E calls s1 = (Inr outs, s2)" "map tool_call_id outs = map id_or_empty calls"
      "submissions (effects s2) = submissions (effects s1)" by blast
  from d d2 show ?case by simp
qed

lemma poll_submissions:
  assumes "activeRun s = Some a" and "list_all parses (visited r rs)"
  shows "map (map tool_call_id) (submissions (effects (snd (poll E rs p r s)))) =
           map (map tool_call_id) (submissions (effects s)) @
           map (\<lambda>r'. map id_or_empty (toolCalls_of r'))
             (filter (\<lambda>r'. status r' = ''requires_action'') (visited r rs))"
  using assms
proof (induction rs arbitrary: r s)
  case Nil
  show ?case
  proof (cases "status r \<in> set pendingStatus")
    case False
    then have "status r \<noteq> ''requires_action''" by (auto simp: pendingStatus_def)
    with False show ?thesis
      by (simp add: poll_finished submissions_append)
  next
    case True
    from pending_cases [OF True] show ?thesis
    proof (elim disjE)
      assume "status r = ''in_progress''"
      with Nil.prems show ?thesis by (simp add: poll_waiting Let_def submissions_append)
    next
      assume "status r = ''queued''"
      with Nil.prems show ?thesis by (simp add: poll_waiting Let_def submissions_append)
    next
      assume st: "status r = ''requires_action''"
      from Nil.prems(2) have "list_all (\<lambda>call. arguments call \<noteq> None) (toolCalls_of r)"
        by (simp add: parses_def)
      from dispatch_all_parsed [OF this, of E s] obtain outs s1 where
        d: "dispatch_all E (toolCalls_of r) s = (Inr outs, s1)"
          "map tool_call_id outs = map id_or_empty (toolCalls_of r)"
          "submissions (effects s1) = submissions (effects s)" by blast
      with st Nil.prems(1) show ?thesis
        by (simp add: poll_acting [OF st d(1)] Let_def submissions_append)
    qed
  qed
next
  case (Cons reply rs)
  show ?case
  proof (cases "status r \<in> set pendingStatus")
    case False
    then have "status r \<noteq> ''requires_action''" by (auto simp: pendingStatus_def)
    with False show ?thesis
      by (simp add: poll_finished submissions_append)
  next
    case True
    have wait: ?thesis if st: "status r = ''in_progress'' \<or> status r = ''queued''"
    proof -
      from st have nr: "status r \<noteq> ''requires_action''" by auto
      let ?s1 = "perform (RunsRetrieve (run_id a)) (perform (Sleep 1000)
                 (perform (Emit ''updates'' (Text ''Processing your request...'')) s))"
      have sub: "submissions (effects ?s1) = submissions (effects s)"
        by (simp add: submissions_append)
      show ?thesis
      proof (cases reply)
        case Throws
        with st nr True Cons.prems(1) sub show ?thesis
          by (simp add: poll_waiting Let_def catch_block_def submissions_append)
      next
        case (Returns r')
        from Cons.prems(2) True Returns have v: "list_all parses (visited r' rs)" by simp
        have "activeRun ?s1 = Some a" using Cons.prems(1) by simp
        from Cons.IH [OF this v] st nr True Returns Cons.prems(1) sub show ?thesis
          by (simp add: poll_waiting Let_def)
      qed
    qed
    from pending_cases [OF True] show ?thesis
    proof (elim disjE)
      assume "status r = ''in_progress''"
      then show ?thesis using wait by blast
    next
      assume "status r = ''queued''"
      then show ?thesis using wait by blast
    next
      assume st: "status r = ''requires_action''"
      from Cons.prems(2) have "list_all (\<lambda>call. arguments call \<noteq> None) (toolCalls_of r)"
        by (simp add: parses_def)
      from dispatch_all_parsed [OF this, of E s] obtain outs s1 where
        d: "dispatch_all E (toolCalls_of r) s = (Inr outs, s1)"
          "map tool_call_id outs = map id_or_empty (toolCalls_of r)"
          "submissions (effects s1) = submissions (effects s)" by blast
      from dispatch_all_frame [OF d(1)] Cons.prems(1) have a1: "activeRun s1 = Some a" by simp
      let ?s2 = "perform (SubmitToolOutputs (run_id a) outs) s1"
      have sub: "submissions (effects ?s2) = submissions (effects s) @ [outs]"
        using d(3) by (simp add: submissions_append)
      show ?thesis
      proof (cases reply)
        case Throws
        with st True Cons.prems(1) sub d(2) show ?thesis
          by (simp add: poll_acting [OF st d(1)] Let_def catch_block_def submissions_append)
      next
        case (Returns r')
        from Cons.prems(2) True Returns have v: "list_all parses (visited r' rs)" by simp
        have "activeRun ?s2 = Some a" using a1 by simp
        from Cons.IH [OF this v] st True Returns Cons.prems(1) sub d(2) show ?thesis
          by (simp add: poll_acting [OF st d(1)] Let_def)
      qed
    qed
  qed
qed

text \<open>
  Where every argument text is JSON, claim C8 holds: the submissions an instruction makes are,
  in order, one for each run with status \<^verbatim>\<open>requires_action\<close> that the loop meets, and each
  holds one output for every call of that batch, in the order of the calls. This counts a
  submission the service then fails or never answers.
\<close>

theorem one_submission_per_batch:
  assumes "messages_create svc = Returns u" and "runs_create svc = Returns created"
    and "run_replies svc = Returns runResult # rs"
    and "list_all parses (visited runResult rs)"
  shows "map (map tool_call_id) (submissions (effects (snd (handleUserPrompt E svc message s)))) =
           map (map tool_call_id) (submissions (effects s)) @
           map (\<lambda>r. map id_or_empty (toolCalls_of r))
             (filter (\<lambda>r. status r = ''requires_action'') (visited runResult rs)) \<and>
         length (submissions (effects (snd (handleUserPrompt E svc message s)))) =
           length (submissions (effects s)) +
           length (filter (\<lambda>r. status r = ''requires_action'') (visited runResult rs))"
proof -
  let ?s3 = "perform (RunsRetrieve (run_id created))
               ((perform RunsCreate (perform (MessagesCreate (addMessageContext E (shapes s) message)) s))
                  \<lparr>activeRun := Some created\<rparr>)"
  have sub3: "submissions (effects ?s3) = submissions (effects s)"
    by (simp add: perform_def submissions_append)
  have eq: "map (map tool_call_id) (submissions (effects (snd (handleUserPrompt E svc message s)))) =
           map (map tool_call_id) (submissions (effects s)) @
           map (\<lambda>r. map id_or_empty (toolCalls_of r))
             (filter (\<lambda>r. status r = ''requires_action'') (visited runResult rs))"
  proof (cases "status runResult \<in> set failedStatus")
    case True
    then have np: "status runResult \<notin> set pendingStatus" by (rule failed_not_pending)
    then have nr: "status runResult \<noteq> ''requires_action''" by (auto simp: pendingStatus_def)
    have v: "visited runResult rs = [runResult]" using np by (cases rs) auto
    from True assms(1-3) np nr v sub3 show ?thesis
      by (simp add: handleUserPrompt_def Let_def poll_finished perform_def submissions_append)
  next
    case False
    have a3: "activeRun ?s3 = Some created" by simp
    from False assms(1-3) have "handleUserPrompt E svc message s = poll E rs None runResult ?s3"
      by (simp add: handleUserPrompt_def Let_def)
    with poll_submissions [OF a3 assms(4), of E None] sub3 show ?thesis by simp
  qed
  from arg_cong [OF eq, of length] have
    "length (submissions (effects (snd (handleUserPrompt E svc message s)))) =
           length (submissions (effects s)) +
           length (filter (\<lambda>r. status r = ''requires_action'') (visited runResult rs))"
    by simp
  with eq show ?thesis by blast
qed

theorem one_submission_per_batch_witness:
  "messages_create drawing = Returns () \<and> runs_create drawing = Returns (run_with ''queued'' None) \<and>
   list_all parses
     (visited (run_with ''requires_action'' (Some [call_of ''createShape'' red_square]))
        [Returns (run_with ''completed'' None)]) \<and>
   map (map tool_call_id)
     (submissions (effects (snd (handleUserPrompt sample_engine drawing draw_request idle)))) =
     [[''call_1'']] \<and>
   length (submissions (effects (snd (handleUserPrompt sample_engine drawing draw_request idle)))) = 1"
proof -
  let ?r = "run_with ''requires_action'' (Some [call_of ''createShape'' red_square])"
  let ?rs = "[Returns (run_with ''completed'' None)]"
  have m: "messages_create drawing = Returns ()"
    and c: "runs_create drawing = Returns (run_with ''queued'' None)"
    and r: "run_replies drawing = Returns ?r # ?rs"
    by (simp_all add: drawing_def service_with_def)
  have v: "visited ?r ?rs = [?r, run_with ''completed'' None]"
    by (simp add: run_with_def pendingStatus_def)
  have ps: "list_all parses (visited ?r ?rs)"
    unfolding v by (simp add: parses_def toolCalls_of_def run_with_def call_of_def)
  have f: "filter (\<lambda>r. status r = ''requires_action'') (visited ?r ?rs) = [?r]"
    unfolding v by (simp add: run_with_def)
  have i: "map id_or_empty (toolCalls_of ?r) = [''call_1'']"
    by (simp add: toolCalls_of_def run_with_def call_of_def id_or_empty_def)
  have e: "effects idle = []" by (simp add: idle_def)
  from one_submission_per_batch [OF m c r ps, of sample_engine draw_request idle]
  have "map (map tool_call_id)
     (submissions (effects (snd (handleUserPrompt sample_engine drawing draw_request idle)))) =
     [[''call_1'']]"
    "length (submissions (effects (snd (handleUserPrompt sample_engine drawing draw_request idle)))) = 1"
    unfolding f e by (simp_all add: i)
  with m c ps show ?thesis by blast
qed

text \<open>
  The \<^verbatim>\<open>catch\<close> block is the only place that rejects without a reason. Whenever it has run,
  whatever failed, the handle is still the run that was created (claim C3 asks for null).
\<close>

theorem caught_error_leaves_handle_set:
  assumes "handleUserPrompt E svc message s = (Some (Rejected None), s')"
  shows "\<exists>created. runs_create svc = Returns created \<and> activeRun s' = Some created"
proof (cases "messages_create svc")
  case Throws
  with assms show ?thesis by (simp add: handleUserPrompt_def)
next
  case (Returns u)
  note m = this
  show ?thesis
  proof (cases "runs_create svc")
    case Throws
    with m assms show ?thesis by (simp add: handleUserPrompt_def)
  next
    case (Returns created)
    note c = this
    let ?s3 = "perform (RunsRetrieve (run_id created))
                 ((perform RunsCreate (perform (MessagesCreate (addMessageContext E (shapes s) message)) s))
                    \<lparr>activeRun := Some created\<rparr>)"
    have a3: "activeRun ?s3 = Some created" by simp
    show ?thesis
    proof (cases "run_replies svc")
      case Nil
      with m c assms show ?thesis by (simp add: handleUserPrompt_def)
    next
      case (Cons reply rs)
      show ?thesis
      proof (cases reply)
        case Throws
        with Cons m c assms show ?thesis
          by (auto simp: handleUserPrompt_def catch_block_def)
      next
        case (Returns runResult)
        show ?thesis
        proof (cases "status runResult \<in> set failedStatus")
          case True
          with Returns Cons m c assms show ?thesis
            by (simp add: handleUserPrompt_def settle_def poll_finished [OF failed_not_pending])
        next
          case False
          with Returns Cons m c assms have "poll E rs None runResult ?s3 = (Some (Rejected None), s')"
            by (simp add: handleUserPrompt_def Let_def)
          from poll_invariant [OF a3 this] c show ?thesis by simp
        qed
      qed
    qed
  qed
qed

theorem caught_error_leaves_handle_set_witness:
  "fst (handleUserPrompt sample_engine unreachable draw_request idle) = Some (Rejected None) \<and>
   runs_create unreachable = Returns (run_with ''queued'' None) \<and>
   activeRun (snd (handleUserPrompt sample_engine unreachable draw_request idle)) =
     Some (run_with ''queued'' None)"
proof -
  have f: "fst (handleUserPrompt sample_engine unreachable draw_request idle) = Some (Rejected None)"
    by (simp add: driver_defs unreachable_def)
  then have h: "handleUserPrompt sample_engine unreachable draw_request idle =
      (Some (Rejected None), snd (handleUserPrompt sample_engine unreachable draw_request idle))"
    by (metis prod.collapse)
  have c: "runs_create unreachable = Returns (run_with ''queued'' None)"
    by (simp add: unreachable_def service_with_def)
  from caught_error_leaves_handle_set [OF h] c f show ?thesis by simp
qed

text \<open>
  At the first fetch, claim C2 holds: a status \<^verbatim>\<open>cancelled\<close>, \<^verbatim>\<open>failed\<close> or \<^verbatim>\<open>expired\<close>
  is notified to the caller, the promise is rejected with it, and the handle is cleared. The
  empty message follows the notification.
\<close>

theorem failed_first_fetch_is_reported:
  assumes "messages_create svc = Returns u" and "runs_create svc = Returns created"
    and "run_replies svc = Returns runResult # rs"
    and "status runResult \<in> set failedStatus"
  shows "handleUserPrompt E svc message s =
           (Some (Rejected (Some (''run result failed with status: '' @ status runResult))),
            s\<lparr>activeRun := None,
              effects := effects s @
                [MessagesCreate (addMessageContext E (shapes s) message), RunsCreate,
                 RunsRetrieve (run_id created),
                 Emit ''updates'' (Text (''Process failed with status: '' @ status runResult)),
                 Emit ''updates'' (Text [])]\<rparr>)"
  using assms
  by (simp add: handleUserPrompt_def settle_def perform_def poll_finished [OF failed_not_pending])

theorem failed_first_fetch_is_reported_witness:
  "messages_create failing = Returns () \<and> runs_create failing = Returns (run_with ''queued'' None) \<and>
   run_replies failing = [Returns (run_with ''failed'' None)] \<and>
   status (run_with ''failed'' None) \<in> set failedStatus \<and>
   handleUserPrompt sample_engine failing draw_request idle =
     (Some (Rejected (Some ''run result failed with status: failed'')),
      idle\<lparr>activeRun := None,
        effects :=
          [MessagesCreate (addMessageContext sample_engine [] draw_request), RunsCreate,
           RunsRetrieve ''run_1'', Emit ''updates'' (Text ''Process failed with status: failed''),
           Emit ''updates'' (Text [])]\<rparr>)"
proof -
  have m: "messages_create failing = Returns ()"
    and c: "runs_create failing = Returns (run_with ''queued'' None)"
    and r: "run_replies failing = Returns (run_with ''failed'' None) # []"
    by (simp_all add: failing_def service_with_def)
  have f: "status (run_with ''failed'' None) \<in> set failedStatus"
    by (simp add: run_with_def failedStatus_def)
  from failed_first_fetch_is_reported [OF m c r f, of sample_engine draw_request idle] m c r f
  show ?thesis by (simp add: run_with_def idle_def)
qed

text \<open>
  A call whose argument text parsed is always answered, under its own identifier: with the
  not-found text when \<^verbatim>\<open>functions[name]\<close> is undefined, with the text of the error when the
  call of what was found throws, with the success text and the new shapes when it returns.
  The shapes change in the last case only.
\<close>

theorem dispatch_answers_parsed_call:
  assumes "arguments call = Some a"
  shows "\<exists>out s'. dispatch E call s = (Inr out, s') \<and> tool_call_id out = id_or_empty call \<and>
           (case functions_get (fn_name call) of
              None \<Rightarrow> output_text out = ''error: couldnt find function'' \<and> shapes s' = shapes s
            | Some fn \<Rightarrow>
                (case call_fn fn a s of
                   Inl err \<Rightarrow> output_text out = err_toString E err \<and> shapes s' = shapes s
                 | Inr s1 \<Rightarrow>
                     s' = s1 \<and>
                     output_text out = ''Success. New shapes array: '' @ JSON_stringify E (shapes s1)))"
  using assms by (simp add: dispatch_def split: option.split sum.split)

theorem dispatch_answers_parsed_call_witness:
  "arguments (call_of ''deleteShape'' red_square) = Some red_square \<and>
   (\<exists>out s'. dispatch sample_engine (call_of ''deleteShape'' red_square) one_shape = (Inr out, s') \<and>
      tool_call_id out = ''call_1'' \<and> output_text out = ''error: couldnt find function'' \<and>
      shapes s' = [shape_42])"
proof -
  have a: "arguments (call_of ''deleteShape'' red_square) = Some red_square"
    by (simp add: call_of_def)
  have n: "functions_get (fn_name (call_of ''deleteShape'' red_square)) = None"
    by (simp add: call_of_def functions_get_def Object_prototype_names_def)
  have i: "id_or_empty (call_of ''deleteShape'' red_square) = ''call_1''"
    by (simp add: call_of_def id_or_empty_def)
  have s: "shapes one_shape = [shape_42]" by (simp add: one_shape_def)
  from dispatch_answers_parsed_call [OF a, of sample_engine one_shape] a show ?thesis
    unfolding n i s by simp
qed

end
